theory Spec2Isabelle
  imports Complex_Main "HOL-Library.AList"
begin

unbundle bit_operations_syntax

section \<open>Numbers of the source\<close>

text \<open>
  The program is JavaScript. Its numbers are IEEE doubles; this development reads them
  as exact numbers: integer-valued quantities (seeds, generator states, chunk
  coordinates, yields) as \<open>int\<close>, all others as \<open>real\<close>. For the seeds the game
  uses (\<open>Math.floor(Math.random() * 1000000)\<close>) every product \<open>16807 * state\<close> is
  below \<open>2^53\<close>, so the integer part of the model is exact; rounding of the
  fractional arithmetic is not modelled.
\<close>

definition js_rem :: "int \<Rightarrow> int \<Rightarrow> int" where
  \<comment> \<open>JavaScript's \<open>%\<close> on integers: the remainder takes the sign of the dividend.\<close>
  "js_rem k n = sgn k * (\<bar>k\<bar> mod \<bar>n\<bar>)"

definition hypot :: "real \<Rightarrow> real \<Rightarrow> real" where
  \<comment> \<open>\<open>Math.hypot(a, b)\<close>\<close>
  "hypot dx dy = sqrt (dx * dx + dy * dy)"

definition atan2 :: "real \<Rightarrow> real \<Rightarrow> real" where
  \<comment> \<open>\<open>Math.atan2(y, x)\<close>, the angle of the point \<open>(x, y)\<close> in \<open>(-\<pi>, \<pi>]\<close>\<close>
  "atan2 y x =
     (if 0 < x then arctan (y / x)
      else if x < 0 then (if 0 \<le> y then arctan (y / x) + pi else arctan (y / x) - pi)
      else if 0 < y then pi / 2
      else if y < 0 then - (pi / 2)
      else 0)"

subsection \<open>CONFIG\<close>

definition TILE_SIZE :: int where "TILE_SIZE = 32"
definition CHUNK_SIZE :: int where "CHUNK_SIZE = 16"
definition TREE_DENSITY :: real where "TREE_DENSITY = 0.08"
definition ROCK_DENSITY :: real where "ROCK_DENSITY = 0.03"
definition FLOWER_DENSITY :: real where "FLOWER_DENSITY = 0.05"
definition BUILDING_DENSITY :: real where "BUILDING_DENSITY = 0.002"
definition NPC_COUNT :: nat where "NPC_COUNT = 20"

section \<open>SeededRandom\<close>

record SeededRandom =
  rng_seed :: int
  rng_m :: int
  rng_a :: int
  rng_state :: int

definition SeededRandom_new :: "int \<Rightarrow> SeededRandom" where
  "SeededRandom_new s = \<lparr>rng_seed = s, rng_m = 2147483647, rng_a = 16807, rng_state = s\<rparr>"

definition rng_next :: "SeededRandom \<Rightarrow> real \<times> SeededRandom" where
  \<comment> \<open>\<open>this.state = (this.a * this.state) % this.m; return this.state / this.m\<close>\<close>
  "rng_next g =
     (let st = js_rem (rng_a g * rng_state g) (rng_m g)
      in (real_of_int st / real_of_int (rng_m g), g\<lparr>rng_state := st\<rparr>))"

definition rng_nextInt :: "SeededRandom \<Rightarrow> int \<Rightarrow> int \<Rightarrow> int \<times> SeededRandom" where
  \<comment> \<open>\<open>Math.floor(this.next() * (max - min + 1)) + min\<close>\<close>
  "rng_nextInt g lo hi =
     (let (r, g') = rng_next g
      in (\<lfloor>r * real_of_int (hi - lo + 1)\<rfloor> + lo, g'))"

definition rng_reset :: "SeededRandom \<Rightarrow> SeededRandom" where
  "rng_reset g = g\<lparr>rng_state := rng_seed g\<rparr>"

definition rng_setSeed :: "SeededRandom \<Rightarrow> int \<Rightarrow> SeededRandom" where
  "rng_setSeed g s = g\<lparr>rng_seed := s, rng_state := s\<rparr>"

definition chunkSeed :: "int \<Rightarrow> int \<Rightarrow> int \<Rightarrow> int" where
  \<comment> \<open>the seed of \<open>chunkRng\<close> in \<open>generateChunk\<close>: \<open>this.seed + chunkX * 1000 + chunkY\<close>\<close>
  "chunkSeed s cx cy = s + cx * 1000 + cy"

section \<open>SimplexNoise\<close>

record grad =
  gx :: real
  gy :: real

text \<open>
  The permutation table is a JavaScript array of numbers; an entry can also be
  \<open>undefined\<close> (\<open>None\<close>), which is what the shuffle stores when its index \<open>j\<close> falls
  outside the array. While it is shuffled the array is a function from property keys to
  entries: a write at a negative key creates a property and leaves \<open>length\<close> at 256.
\<close>

record SimplexNoise =
  sn_rng :: SeededRandom
  permutation :: "int option list"
  gradients :: "grad list"

fun shuffle_loop :: "nat \<Rightarrow> (int \<Rightarrow> int option) \<Rightarrow> SeededRandom \<Rightarrow> (int \<Rightarrow> int option) \<times> SeededRandom" where
  \<comment> \<open>\<open>for (let i = 255; i > 0; i--) { j = Math.floor(rng.next() * (i + 1)); swap }\<close>\<close>
  "shuffle_loop 0 p g = (p, g)"
| "shuffle_loop (Suc n) p g =
     (let (r, g') = rng_next g;
          i = int (Suc n);
          j = \<lfloor>r * real_of_int (i + 1)\<rfloor>
      in shuffle_loop n (p(i := p j, j := p i)) g')"

definition buildPermutation :: "SeededRandom \<Rightarrow> int option list \<times> SeededRandom" where
  "buildPermutation g =
     (let perm0 = (\<lambda>k. if 0 \<le> k \<and> k < 256 then Some k else None);
          (p, g') = shuffle_loop 255 perm0 g;
          perm = map p (map int [0..<256])
      in (perm @ perm, g'))"

fun buildGradients_loop :: "nat \<Rightarrow> SeededRandom \<Rightarrow> grad list \<times> SeededRandom" where
  "buildGradients_loop 0 g = ([], g)"
| "buildGradients_loop (Suc n) g =
     (let (r, g') = rng_next g;
          angle = r * pi * 2;
          (gs, g'') = buildGradients_loop n g'
      in (\<lparr>gx = cos angle, gy = sin angle\<rparr> # gs, g''))"

definition buildGradients :: "SeededRandom \<Rightarrow> grad list \<times> SeededRandom" where
  "buildGradients g = buildGradients_loop 256 g"

definition SimplexNoise_new :: "int \<Rightarrow> SimplexNoise" where
  "SimplexNoise_new s =
     (let (perm, g1) = buildPermutation (SeededRandom_new s);
          (grads, g2) = buildGradients g1
      in \<lparr>sn_rng = g2, permutation = perm, gradients = grads\<rparr>)"

definition dot :: "grad \<Rightarrow> real \<Rightarrow> real \<Rightarrow> real" where
  "dot g x y = gx g * x + gy g * y"

definition fade :: "real \<Rightarrow> real" where
  "fade t = t * t * t * (t * (t * 6 - 15) + 10)"

definition lerp :: "real \<Rightarrow> real \<Rightarrow> real \<Rightarrow> real" where
  "lerp a b t = a + t * (b - a)"

definition perm_at :: "int option list \<Rightarrow> int option \<Rightarrow> int option" where
  \<comment> \<open>\<open>this.permutation[k]\<close>: \<open>undefined\<close> when \<open>k\<close> is \<open>NaN\<close> or no index of the array\<close>
  "perm_at P k =
     (case k of None \<Rightarrow> None
      | Some i \<Rightarrow> if 0 \<le> i \<and> i < int (length P) then P ! nat i else None)"

definition js_plus :: "int option \<Rightarrow> int \<Rightarrow> int option" where
  \<comment> \<open>\<open>e + k\<close>: \<open>undefined + k\<close> is \<open>NaN\<close>\<close>
  "js_plus e k = map_option (\<lambda>v. v + k) e"

definition and255 :: "int option \<Rightarrow> nat" where
  \<comment> \<open>\<open>e & 255\<close>: \<open>undefined\<close> and \<open>NaN\<close> convert to 0\<close>
  "and255 e = (case e of None \<Rightarrow> 0 | Some v \<Rightarrow> nat (v AND 255))"

definition noise2D :: "SimplexNoise \<Rightarrow> real \<Rightarrow> real \<Rightarrow> real" where
  \<comment> \<open>The gradient index is below 256, the length of the gradient array.\<close>
  "noise2D nf x y =
     (let X = \<lfloor>x\<rfloor> AND 255;
          Y = \<lfloor>y\<rfloor> AND 255;
          xf = x - real_of_int \<lfloor>x\<rfloor>;
          yf = y - real_of_int \<lfloor>y\<rfloor>;
          u = fade xf;
          v = fade yf;
          P = permutation nf;
          aa = js_plus (perm_at P (Some X)) Y;
          ab = js_plus (js_plus (perm_at P (Some X)) Y) 1;
          ba = js_plus (perm_at P (Some (X + 1))) Y;
          bb = js_plus (js_plus (perm_at P (Some (X + 1))) Y) 1;
          gradAA = gradients nf ! and255 (perm_at P aa);
          gradBA = gradients nf ! and255 (perm_at P ba);
          gradAB = gradients nf ! and255 (perm_at P ab);
          gradBB = gradients nf ! and255 (perm_at P bb);
          x1 = lerp (dot gradAA xf yf) (dot gradBA (xf - 1) yf) u;
          x2 = lerp (dot gradAB xf (yf - 1)) (dot gradBB (xf - 1) (yf - 1)) u
      in lerp x1 x2 v)"

fun fbm_loop :: "SimplexNoise \<Rightarrow> real \<Rightarrow> real \<Rightarrow> real \<Rightarrow> real \<Rightarrow> nat \<Rightarrow> real \<times> real \<times> real \<times> real \<Rightarrow> real \<times> real" where
  \<comment> \<open>the accumulators are \<open>(value, amplitude, frequency, maxValue)\<close>\<close>
  "fbm_loop nf x y lacunarity persistence 0 (val, amplitude, frequency, maxValue) = (val, maxValue)"
| "fbm_loop nf x y lacunarity persistence (Suc n) (val, amplitude, frequency, maxValue) =
     fbm_loop nf x y lacunarity persistence n
       (val + amplitude * noise2D nf (x * frequency) (y * frequency),
        amplitude * persistence, frequency * lacunarity, maxValue + amplitude)"

definition fbm :: "SimplexNoise \<Rightarrow> real \<Rightarrow> real \<Rightarrow> nat \<Rightarrow> real \<Rightarrow> real \<Rightarrow> real" where
  "fbm nf x y octaves lacunarity persistence =
     (let (val, maxValue) = fbm_loop nf x y lacunarity persistence octaves (0, 1, 1, 0)
      in val / maxValue)"

section \<open>Utilities\<close>

text \<open>
  \<open>generateId\<close> returns the string \<open>entity_${Date.now()}_${++idCounter}\<close>. The
  string is kept as its two numbers. The counter is a module variable and the clock
  belongs to the host, so both live outside the world, in a record of the running
  process: \<open>clock k\<close> is what \<open>Date.now()\<close> answers at the \<open>k\<close>-th call of
  \<open>generateId\<close>, and \<open>timers\<close> holds the callbacks given to \<open>setTimeout\<close> (delay in
  milliseconds, and the object the callback restores, named by its id).
\<close>

datatype entity_id = Entity int nat

record runtime =
  idCounter :: nat
  clock :: "nat \<Rightarrow> int"
  timers :: "(int \<times> entity_id) list"

definition generateId :: "runtime \<Rightarrow> entity_id \<times> runtime" where
  "generateId rt =
     (let c = idCounter rt + 1
      in (Entity (clock rt c) c, rt\<lparr>idCounter := c\<rparr>))"

definition randomChoice :: "'a list \<Rightarrow> SeededRandom \<Rightarrow> 'a option \<times> SeededRandom" where
  \<comment> \<open>\<open>array[Math.floor(rng.next() * array.length)]\<close>; \<open>undefined\<close> off the array\<close>
  "randomChoice array g =
     (let (r, g') = rng_next g;
          index = \<lfloor>r * real (length array)\<rfloor>
      in (if 0 \<le> index \<and> index < int (length array) then Some (array ! nat index) else None, g'))"

section \<open>World\<close>

datatype biome = Water | Beach | Mountain | Rocky | Forest | Desert | Plains

datatype obj_kind = Tree | Rock | Flower | Mushroom | Bush | Cactus

datatype building_kind = House | Shop | Inn | Well

datatype npc_mode = Idle | Walking

record tile =
  tile_color :: string
  tile_biome :: biome

record wobject =
  obj_id :: entity_id
  obj_type :: obj_kind
  obj_treeType :: "string option"
  obj_x :: real
  obj_y :: real
  obj_harvestable :: bool
  obj_resource :: "string option"
  obj_amount :: "int option"

text \<open>
  A building's \<open>width\<close> and \<open>height\<close> are 40 or an answer of \<open>nextInt\<close>; they are
  kept as reals, the type of the coordinates they are added to. Its \<open>type\<close> is
  \<open>undefined\<close> (\<open>None\<close>) when \<open>randomChoice\<close> reads off its array.
\<close>

record building =
  b_id :: entity_id
  b_type :: "building_kind option"
  b_x :: real
  b_y :: real
  b_width :: real
  b_height :: real
  b_door :: bool
  b_interactable :: bool

record npc =
  npc_id :: entity_id
  npc_type :: "string option"
  npc_x :: real
  npc_y :: real
  npc_homeX :: real
  npc_homeY :: real
  npc_direction :: real
  npc_state :: npc_mode
  npc_stateTimer :: real
  npc_interactable :: bool

record chunk =
  chunk_x :: int
  chunk_y :: int
  tiles :: "tile list list"
  objects :: "wobject list"
  generated :: bool

text \<open>
  \<open>chunks\<close> is a JavaScript \<open>Map\<close>: an association list in insertion order, which is
  the order \<open>harvestObject\<close> walks it in. Its key is the string \<open>${chunkX},${chunkY}\<close>,
  kept as the pair of integers. The fields \<open>entities\<close>, \<open>animals\<close> and \<open>resources\<close>
  of the class are not modelled: no operation below reads or writes them.
\<close>

record world =
  w_seed :: int
  w_noise :: SimplexNoise
  w_rng :: SeededRandom
  chunks :: "((int \<times> int) \<times> chunk) list"
  buildings :: "building list"
  npcs :: "npc list"
  biomeNoise :: SimplexNoise
  moistureNoise :: SimplexNoise

definition World_new :: "int \<Rightarrow> world" where
  "World_new s =
     \<lparr>w_seed = s, w_noise = SimplexNoise_new s, w_rng = SeededRandom_new s,
      chunks = [], buildings = [], npcs = [],
      biomeNoise = SimplexNoise_new (s + 1), moistureNoise = SimplexNoise_new (s + 2)\<rparr>"

definition getBiome :: "world \<Rightarrow> real \<Rightarrow> real \<Rightarrow> biome" where
  "getBiome w worldX worldY =
     (let scale = 0.002;
          elevation = fbm (w_noise w) (worldX * scale) (worldY * scale) 4 2 0.5;
          moisture = fbm (moistureNoise w) (worldX * scale * 1.5) (worldY * scale * 1.5) 3 2 0.5
      in if elevation < - 0.3 then Water
         else if elevation < - 0.2 then Beach
         else if elevation > 0.6 then Mountain
         else if elevation > 0.5 then Rocky
         else if moisture > 0.3 then Forest
         else if moisture < - 0.2 then Desert
         else Plains)"

definition getTerrainColor :: "world \<Rightarrow> real \<Rightarrow> real \<Rightarrow> string" where
  "getTerrainColor w worldX worldY =
     (let b = getBiome w worldX worldY;
          detail = noise2D (w_noise w) (worldX * 0.1) (worldY * 0.1) * 0.1
      in case b of
           Water \<Rightarrow>
             (let depth = fbm (w_noise w) (worldX * 0.002) (worldY * 0.002) 4 2 0.5
              in if depth < - 0.4 then ''#1E3A8A'' else ''#4169E1'')
         | Beach \<Rightarrow> ''#F4D03F''
         | Mountain \<Rightarrow> ''#696969''
         | Rocky \<Rightarrow> ''#808080''
         | Forest \<Rightarrow> (if detail > 0 then ''#228B22'' else ''#1B5E20'')
         | Desert \<Rightarrow> (if detail > 0 then ''#D2B48C'' else ''#C4A35A'')
         | Plains \<Rightarrow> (if detail > 0 then ''#90EE90'' else ''#7CCD7C''))"

definition in_footprint :: "building \<Rightarrow> real \<Rightarrow> real \<Rightarrow> bool" where
  "in_footprint b worldX worldY \<longleftrightarrow>
     worldX \<ge> b_x b \<and> worldX \<le> b_x b + b_width b \<and>
     worldY \<ge> b_y b \<and> worldY \<le> b_y b + b_height b"

definition in_door :: "building \<Rightarrow> real \<Rightarrow> real \<Rightarrow> bool" where
  "in_door b worldX worldY \<longleftrightarrow>
     (let doorX = b_x b + b_width b / 2;
          doorY = b_y b + b_height b
      in \<bar>worldX - doorX\<bar> < 20 \<and> \<bar>worldY - doorY\<bar> < 20)"

fun walkable_buildings :: "building list \<Rightarrow> real \<Rightarrow> real \<Rightarrow> bool" where
  \<comment> \<open>the \<open>for\<close> loop of \<open>isWalkable\<close>: the first footprint that holds the point returns\<close>
  "walkable_buildings [] worldX worldY = True"
| "walkable_buildings (b # bs) worldX worldY =
     (if in_footprint b worldX worldY
      then (if b_door b then (if in_door b worldX worldY then True else False) else False)
      else walkable_buildings bs worldX worldY)"

definition isWalkable :: "world \<Rightarrow> real \<Rightarrow> real \<Rightarrow> bool" where
  "isWalkable w worldX worldY =
     (if getBiome w worldX worldY = Water then False
      else walkable_buildings (buildings w) worldX worldY)"

definition getChunkKey :: "int \<Rightarrow> int \<Rightarrow> int \<times> int" where
  "getChunkKey chunkX chunkY = (chunkX, chunkY)"

subsection \<open>Chunk generation\<close>

text \<open>
  The object loop of \<open>generateChunk\<close> mutates the chunk's stream, the chunk's object
  list, the world's building list and the id counter; \<open>gen_state\<close> threads the four.
\<close>

record gen_state =
  gs_rng :: SeededRandom
  gs_objects :: "wobject list"
  gs_buildings :: "building list"
  gs_rt :: runtime

definition jitter :: "SeededRandom \<Rightarrow> real \<Rightarrow> real \<times> SeededRandom" where
  \<comment> \<open>\<open>world + (chunkRng.next() - 0.5) * CONFIG.TILE_SIZE\<close>\<close>
  "jitter g worldC = (let (r, g') = rng_next g in (worldC + (r - 0.5) * real_of_int TILE_SIZE, g'))"

definition place_tree :: "biome \<Rightarrow> real \<Rightarrow> real \<Rightarrow> real \<Rightarrow> gen_state \<Rightarrow> gen_state" where
  "place_tree b roll worldX worldY s =
     (if (b = Forest \<or> b = Plains) \<and> roll < TREE_DENSITY then
        (let treeType = (if b = Forest then ''pine'' else ''oak'');
             (i, rt') = generateId (gs_rt s);
             (x, g1) = jitter (gs_rng s) worldX;
             (y, g2) = jitter g1 worldY;
             (n, g3) = rng_nextInt g2 2 4
         in s\<lparr>gs_rng := g3, gs_rt := rt',
              gs_objects := gs_objects s @
                [\<lparr>obj_id = i, obj_type = Tree, obj_treeType = Some treeType, obj_x = x, obj_y = y,
                  obj_harvestable = True, obj_resource = Some ''wood'', obj_amount = Some n\<rparr>]\<rparr>)
      else s)"

definition place_rock :: "biome \<Rightarrow> real \<Rightarrow> real \<Rightarrow> real \<Rightarrow> gen_state \<Rightarrow> gen_state" where
  "place_rock b roll worldX worldY s =
     (if (b = Rocky \<or> b = Mountain) \<and> roll < ROCK_DENSITY * 2 then
        (let (i, rt') = generateId (gs_rt s);
             (x, g1) = jitter (gs_rng s) worldX;
             (y, g2) = jitter g1 worldY;
             (r, g3) = rng_next g2;
             (n, g4) = rng_nextInt g3 1 3
         in s\<lparr>gs_rng := g4, gs_rt := rt',
              gs_objects := gs_objects s @
                [\<lparr>obj_id = i, obj_type = Rock, obj_treeType = None, obj_x = x, obj_y = y,
                  obj_harvestable = True,
                  obj_resource = Some (if r > 0.9 then ''gem'' else ''stone''),
                  obj_amount = Some n\<rparr>]\<rparr>)
      else s)"

definition place_flower :: "biome \<Rightarrow> real \<Rightarrow> real \<Rightarrow> real \<Rightarrow> gen_state \<Rightarrow> gen_state" where
  "place_flower b roll worldX worldY s =
     (if b = Plains \<and> roll < FLOWER_DENSITY then
        (let (i, rt') = generateId (gs_rt s);
             (x, g1) = jitter (gs_rng s) worldX;
             (y, g2) = jitter g1 worldY
         in s\<lparr>gs_rng := g2, gs_rt := rt',
              gs_objects := gs_objects s @
                [\<lparr>obj_id = i, obj_type = Flower, obj_treeType = None, obj_x = x, obj_y = y,
                  obj_harvestable = True, obj_resource = Some ''flower'', obj_amount = Some 1\<rparr>]\<rparr>)
      else s)"

definition place_mushroom :: "biome \<Rightarrow> real \<Rightarrow> real \<Rightarrow> gen_state \<Rightarrow> gen_state" where
  \<comment> \<open>\<open>biome === 'forest' && chunkRng.next() < 0.02\<close>: the draw is taken in a forest only\<close>
  "place_mushroom b worldX worldY s =
     (if b = Forest then
        (let (d, g0) = rng_next (gs_rng s)
         in if d < 0.02 then
              (let (i, rt') = generateId (gs_rt s);
                   (x, g1) = jitter g0 worldX;
                   (y, g2) = jitter g1 worldY
               in s\<lparr>gs_rng := g2, gs_rt := rt',
                    gs_objects := gs_objects s @
                      [\<lparr>obj_id = i, obj_type = Mushroom, obj_treeType = None, obj_x = x, obj_y = y,
                        obj_harvestable = True, obj_resource = Some ''mushroom'',
                        obj_amount = Some 1\<rparr>]\<rparr>)
            else s\<lparr>gs_rng := g0\<rparr>)
      else s)"

definition place_bush :: "biome \<Rightarrow> real \<Rightarrow> real \<Rightarrow> gen_state \<Rightarrow> gen_state" where
  "place_bush b worldX worldY s =
     (if b = Forest \<or> b = Plains then
        (let (d, g0) = rng_next (gs_rng s)
         in if d < 0.015 then
              (let (i, rt') = generateId (gs_rt s);
                   (x, g1) = jitter g0 worldX;
                   (y, g2) = jitter g1 worldY;
                   (n, g3) = rng_nextInt g2 2 5
               in s\<lparr>gs_rng := g3, gs_rt := rt',
                    gs_objects := gs_objects s @
                      [\<lparr>obj_id = i, obj_type = Bush, obj_treeType = None, obj_x = x, obj_y = y,
                        obj_harvestable = True, obj_resource = Some ''berry'',
                        obj_amount = Some n\<rparr>]\<rparr>)
            else s\<lparr>gs_rng := g0\<rparr>)
      else s)"

definition place_cactus :: "biome \<Rightarrow> real \<Rightarrow> real \<Rightarrow> gen_state \<Rightarrow> gen_state" where
  \<comment> \<open>a cactus has no \<open>resource\<close> and no \<open>amount\<close> field\<close>
  "place_cactus b worldX worldY s =
     (if b = Desert then
        (let (d, g0) = rng_next (gs_rng s)
         in if d < 0.02 then
              (let (i, rt') = generateId (gs_rt s);
                   (x, g1) = jitter g0 worldX;
                   (y, g2) = jitter g1 worldY
               in s\<lparr>gs_rng := g2, gs_rt := rt',
                    gs_objects := gs_objects s @
                      [\<lparr>obj_id = i, obj_type = Cactus, obj_treeType = None, obj_x = x, obj_y = y,
                        obj_harvestable = False, obj_resource = None, obj_amount = None\<rparr>]\<rparr>)
            else s\<lparr>gs_rng := g0\<rparr>)
      else s)"

definition generateBuilding :: "real \<Rightarrow> real \<Rightarrow> gen_state \<Rightarrow> gen_state" where
  \<comment> \<open>\<open>type\<close> is \<open>undefined\<close> when \<open>randomChoice\<close> reads off the array; then
      \<open>type === 'well'\<close> is false and \<open>type !== 'well'\<close> is true\<close>
  "generateBuilding x y s =
     (let (ty, g1) = randomChoice [House, Shop, Inn, Well] (gs_rng s);
          (i, rt') = generateId (gs_rt s);
          (wd, g2) = (if ty = Some Well then (40, g1) else rng_nextInt g1 60 100);
          (ht, g3) = (if ty = Some Well then (40, g2) else rng_nextInt g2 50 80)
      in s\<lparr>gs_rng := g3, gs_rt := rt',
           gs_buildings := gs_buildings s @
             [\<lparr>b_id = i, b_type = ty, b_x = x, b_y = y,
               b_width = real_of_int wd, b_height = real_of_int ht,
               b_door = (ty \<noteq> Some Well), b_interactable = True\<rparr>]\<rparr>)"

definition place_building :: "biome \<Rightarrow> real \<Rightarrow> real \<Rightarrow> gen_state \<Rightarrow> gen_state" where
  "place_building b worldX worldY s =
     (if b = Plains then
        (let (d, g0) = rng_next (gs_rng s)
         in if d < BUILDING_DENSITY then generateBuilding worldX worldY (s\<lparr>gs_rng := g0\<rparr>)
            else s\<lparr>gs_rng := g0\<rparr>)
      else s)"

definition tile_step :: "biome \<Rightarrow> real \<Rightarrow> real \<Rightarrow> gen_state \<Rightarrow> gen_state" where
  \<comment> \<open>the body of the object loop, for a tile of biome \<open>b\<close> centred at \<open>(worldX, worldY)\<close>\<close>
  "tile_step b worldX worldY s =
     (if b = Water \<or> b = Beach then s
      else
        (let (roll, g) = rng_next (gs_rng s);
             s1 = place_tree b roll worldX worldY (s\<lparr>gs_rng := g\<rparr>);
             s2 = place_rock b roll worldX worldY s1;
             s3 = place_flower b roll worldX worldY s2;
             s4 = place_mushroom b worldX worldY s3;
             s5 = place_bush b worldX worldY s4;
             s6 = place_cactus b worldX worldY s5
         in place_building b worldX worldY s6))"

definition tile_coords :: "(nat \<times> nat) list" where
  \<comment> \<open>\<open>(ty, tx)\<close> in the order of the two nested \<open>for\<close> loops\<close>
  "tile_coords = concat (map (\<lambda>ty. map (\<lambda>tx. (ty, tx)) [0..<nat CHUNK_SIZE]) [0..<nat CHUNK_SIZE])"

definition generate_tiles :: "world \<Rightarrow> int \<Rightarrow> int \<Rightarrow> tile list list" where
  "generate_tiles w chunkX chunkY =
     (let worldStartX = chunkX * CHUNK_SIZE * TILE_SIZE;
          worldStartY = chunkY * CHUNK_SIZE * TILE_SIZE
      in map (\<lambda>ty. map (\<lambda>tx.
               (let worldX = real_of_int (worldStartX + int tx * TILE_SIZE);
                    worldY = real_of_int (worldStartY + int ty * TILE_SIZE)
                in \<lparr>tile_color = getTerrainColor w worldX worldY,
                    tile_biome = getBiome w worldX worldY\<rparr>))
             [0..<nat CHUNK_SIZE]) [0..<nat CHUNK_SIZE])"

definition generate_objects :: "tile list list \<Rightarrow> int \<Rightarrow> int \<Rightarrow> gen_state \<Rightarrow> gen_state" where
  "generate_objects ts chunkX chunkY s0 =
     (let worldStartX = chunkX * CHUNK_SIZE * TILE_SIZE;
          worldStartY = chunkY * CHUNK_SIZE * TILE_SIZE
      in foldl (\<lambda>s (ty, tx).
               (let worldX = real_of_int (worldStartX + int tx * TILE_SIZE) + real_of_int TILE_SIZE / 2;
                    worldY = real_of_int (worldStartY + int ty * TILE_SIZE) + real_of_int TILE_SIZE / 2
                in tile_step (tile_biome (ts ! ty ! tx)) worldX worldY s))
           s0 tile_coords)"

definition generateChunk :: "world \<Rightarrow> runtime \<Rightarrow> int \<Rightarrow> int \<Rightarrow> chunk \<times> world \<times> runtime" where
  "generateChunk w rt chunkX chunkY =
     (let key = getChunkKey chunkX chunkY;
          chunkRng = SeededRandom_new (chunkSeed (w_seed w) chunkX chunkY);
          ts = generate_tiles w chunkX chunkY;
          s = generate_objects ts chunkX chunkY
                \<lparr>gs_rng = chunkRng, gs_objects = [], gs_buildings = buildings w, gs_rt = rt\<rparr>;
          c = \<lparr>chunk_x = chunkX, chunk_y = chunkY, tiles = ts, objects = gs_objects s,
               generated = True\<rparr>
      in (c, w\<lparr>chunks := AList.update key c (chunks w), buildings := gs_buildings s\<rparr>, gs_rt s))"

definition getChunk :: "world \<Rightarrow> runtime \<Rightarrow> int \<Rightarrow> int \<Rightarrow> chunk option \<times> world \<times> runtime" where
  \<comment> \<open>\<open>if (!this.chunks.has(key)) this.generateChunk(..); return this.chunks.get(key)\<close>\<close>
  "getChunk w rt chunkX chunkY =
     (let key = getChunkKey chunkX chunkY;
          (w', rt') = (if map_of (chunks w) key = None
                       then snd (generateChunk w rt chunkX chunkY) else (w, rt))
      in (map_of (chunks w') key, w', rt'))"

subsection \<open>NPCs\<close>

fun find_walkable :: "world \<Rightarrow> nat \<Rightarrow> real \<Rightarrow> real \<Rightarrow> SeededRandom \<Rightarrow> real \<times> real \<times> SeededRandom" where
  \<comment> \<open>\<open>while (!this.isWalkable(x, y) && attempts < 10)\<close>, counting the attempts left\<close>
  "find_walkable w 0 x y g = (x, y, g)"
| "find_walkable w (Suc n) x y g =
     (if \<not> isWalkable w x y then
        (let (r1, g1) = rng_next g;
             (r2, g2) = rng_next g1
         in find_walkable w n (x + (r1 - 0.5) * 100) (y + (r2 - 0.5) * 100) g2)
      else (x, y, g))"

definition spawn_one :: "world \<Rightarrow> real \<Rightarrow> real \<Rightarrow> SeededRandom \<times> npc list \<times> runtime \<Rightarrow> SeededRandom \<times> npc list \<times> runtime" where
  \<comment> \<open>one round of the \<open>for\<close> loop of \<open>spawnNPCs\<close>\<close>
  "spawn_one w playerX playerY st =
     (let (g, ns, rt) = st;
          (r1, g1) = rng_next g;
          angle = r1 * pi * 2;
          (r2, g2) = rng_next g1;
          dist = 200 + r2 * 800;
          (x, y, g3) = find_walkable w 10 (playerX + cos angle * dist) (playerY + sin angle * dist) g2
      in if isWalkable w x y then
           (let (i, rt') = generateId rt;
                (ty, g4) = randomChoice [''villager'', ''merchant'', ''elder'', ''guard'', ''wanderer''] g3;
                (r5, g5) = rng_next g4;
                (r6, g6) = rng_next g5
            in (g6,
                ns @ [\<lparr>npc_id = i, npc_type = ty, npc_x = x, npc_y = y, npc_homeX = x, npc_homeY = y,
                       npc_direction = r5 * pi * 2, npc_state = Idle, npc_stateTimer = r6 * 5,
                       npc_interactable = True\<rparr>],
                rt'))
         else (g3, ns, rt))"

definition spawnNPCs :: "world \<Rightarrow> runtime \<Rightarrow> real \<Rightarrow> real \<Rightarrow> world \<times> runtime" where
  "spawnNPCs w rt playerX playerY =
     (let (g, ns, rt') = ((spawn_one w playerX playerY) ^^ NPC_COUNT)
                           (SeededRandom_new (w_seed w + 999), npcs w, rt)
      in (w\<lparr>npcs := ns\<rparr>, rt'))"

definition updateNPC_state :: "npc \<Rightarrow> real \<Rightarrow> real \<Rightarrow> real \<Rightarrow> real \<Rightarrow> real \<Rightarrow> npc" where
  \<comment> \<open>\<open>updateNPC\<close> up to its comment \<open>// Walk\<close>: the timer, the change of state and the
      turn towards a player who is near. \<open>rnd1\<close>, \<open>rnd2\<close>: what \<open>Math.random()\<close> answers
      at its first and second call\<close>
  "updateNPC_state n0 deltaTime playerX playerY rnd1 rnd2 =
     (let n1 = n0\<lparr>npc_stateTimer := npc_stateTimer n0 - deltaTime\<rparr>;
          distToPlayer = hypot (npc_x n1 - playerX) (npc_y n1 - playerY);
          n2 = (if npc_stateTimer n1 \<le> 0 then
                  (if npc_state n1 = Idle
                   then n1\<lparr>npc_state := Walking, npc_direction := rnd1 * pi * 2,
                           npc_stateTimer := 2 + rnd2 * 3\<rparr>
                   else n1\<lparr>npc_state := Idle, npc_stateTimer := 1 + rnd1 * 4\<rparr>)
                else n1)
      in if distToPlayer < 100
         then n2\<lparr>npc_direction := atan2 (playerY - npc_y n2) (playerX - npc_x n2),
                 npc_state := Idle\<rparr>
         else n2)"

definition updateNPC :: "world \<Rightarrow> npc \<Rightarrow> real \<Rightarrow> real \<Rightarrow> real \<Rightarrow> real \<Rightarrow> real \<Rightarrow> npc" where
  "updateNPC w n0 deltaTime playerX playerY rnd1 rnd2 =
     (let n3 = updateNPC_state n0 deltaTime playerX playerY rnd1 rnd2
      in if npc_state n3 = Walking then
           (let speed = 30;
                newX = npc_x n3 + cos (npc_direction n3) * speed * deltaTime;
                newY = npc_y n3 + sin (npc_direction n3) * speed * deltaTime;
                distFromHome = hypot (newX - npc_homeX n3) (newY - npc_homeY n3)
            in if distFromHome < 150 \<and> isWalkable w newX newY
               then n3\<lparr>npc_x := newX, npc_y := newY\<rparr>
               else n3\<lparr>npc_direction := atan2 (npc_homeY n3 - npc_y n3) (npc_homeX n3 - npc_x n3)\<rparr>)
         else n3)"

subsection \<open>Harvesting\<close>

fun findIndex :: "('a \<Rightarrow> bool) \<Rightarrow> 'a list \<Rightarrow> nat option" where
  \<comment> \<open>\<open>Array.prototype.findIndex\<close>; \<open>None\<close> is its \<open>-1\<close>\<close>
  "findIndex P [] = None"
| "findIndex P (x # xs) = (if P x then Some 0 else map_option Suc (findIndex P xs))"

definition splice1 :: "nat \<Rightarrow> 'a list \<Rightarrow> 'a list" where
  \<comment> \<open>\<open>xs.splice(i, 1)\<close>\<close>
  "splice1 i xs = take i xs @ drop (Suc i) xs"

fun harvest_loop :: "((int \<times> int) \<times> chunk) list \<Rightarrow> entity_id \<Rightarrow>
    ((string option \<times> int option) \<times> ((int \<times> int) \<times> chunk) list \<times> bool) option" where
  \<comment> \<open>the loop over \<open>this.chunks.values()\<close>: the result \<open>{resource, amount}\<close>, the chunks
      after the harvest, and whether a respawn timer was set\<close>
  "harvest_loop [] objectId = None"
| "harvest_loop ((k, c) # rest) objectId =
     (let continue = map_option (\<lambda>(r, cs, t). (r, (k, c) # cs, t)) (harvest_loop rest objectId)
      in case findIndex (\<lambda>ob. obj_id ob = objectId) (objects c) of
           None \<Rightarrow> continue
         | Some objIndex \<Rightarrow>
             (let ob = objects c ! objIndex
              in if obj_harvestable ob then
                   (if obj_type ob = Tree \<or> obj_type ob = Rock
                    then Some ((obj_resource ob, obj_amount ob),
                               (k, c\<lparr>objects := splice1 objIndex (objects c)\<rparr>) # rest, False)
                    else Some ((obj_resource ob, obj_amount ob),
                               (k, c\<lparr>objects := (objects c)[objIndex := ob\<lparr>obj_harvestable := False\<rparr>]\<rparr>) # rest,
                               True))
                 else continue))"

definition harvestObject :: "world \<Rightarrow> runtime \<Rightarrow> entity_id \<Rightarrow>
    (string option \<times> int option) option \<times> world \<times> runtime" where
  "harvestObject w rt objectId =
     (case harvest_loop (chunks w) objectId of
        None \<Rightarrow> (None, w, rt)
      | Some (r, cs, t) \<Rightarrow>
          (Some r, w\<lparr>chunks := cs\<rparr>,
           if t then rt\<lparr>timers := timers rt @ [(30000, objectId)]\<rparr> else rt))"

definition respawn :: "world \<Rightarrow> entity_id \<Rightarrow> world" where
  \<comment> \<open>the callback of the respawn timer: \<open>obj.harvestable = true\<close>\<close>
  "respawn w objectId =
     w\<lparr>chunks := map (\<lambda>(k, c). (k, c\<lparr>objects :=
          map (\<lambda>ob. if obj_id ob = objectId then ob\<lparr>obj_harvestable := True\<rparr> else ob) (objects c)\<rparr>))
        (chunks w)\<rparr>"

subsection \<open>Spatial queries\<close>

record wobject_near = wobject +
  obj_distance :: real

record npc_near = npc +
  npc_distance :: real

record building_near = building +
  b_distance :: real

definition near_object :: "wobject \<Rightarrow> real \<Rightarrow> wobject_near" where
  \<comment> \<open>\<open>{ ...obj, distance: dist }\<close>\<close>
  "near_object ob d = wobject.extend ob (wobject_near.fields d)"

definition near_npc :: "npc \<Rightarrow> real \<Rightarrow> npc_near" where
  "near_npc n d = npc.extend n (npc_near.fields d)"

definition near_building :: "building \<Rightarrow> real \<Rightarrow> building_near" where
  "near_building b d = building.extend b (building_near.fields d)"

definition near_chunks :: "real \<Rightarrow> real \<Rightarrow> (int \<times> int) list" where
  \<comment> \<open>the keys of the two nested loops of \<open>getObjectsNear\<close>, \<open>cx\<close> outside and \<open>cy\<close> inside\<close>
  "near_chunks x y =
     (let chunkX = \<lfloor>x / real_of_int (CHUNK_SIZE * TILE_SIZE)\<rfloor>;
          chunkY = \<lfloor>y / real_of_int (CHUNK_SIZE * TILE_SIZE)\<rfloor>
      in concat (map (\<lambda>cx. map (\<lambda>cy. getChunkKey cx cy) [chunkY - 1, chunkY, chunkY + 1])
                   [chunkX - 1, chunkX, chunkX + 1]))"

definition objects_in_range :: "world \<Rightarrow> real \<Rightarrow> real \<Rightarrow> real \<Rightarrow> wobject_near list" where
  \<comment> \<open>the array \<open>objects\<close> of \<open>getObjectsNear\<close> before it is sorted\<close>
  "objects_in_range w x y radius =
     concat (map (\<lambda>key.
       case map_of (chunks w) key of
         None \<Rightarrow> []
       | Some c \<Rightarrow>
           map (\<lambda>ob. near_object ob (hypot (obj_x ob - x) (obj_y ob - y)))
             (filter (\<lambda>ob. hypot (obj_x ob - x) (obj_y ob - y) \<le> radius) (objects c)))
       (near_chunks x y))"

definition getObjectsNear :: "world \<Rightarrow> real \<Rightarrow> real \<Rightarrow> real \<Rightarrow> wobject_near list" where
  \<comment> \<open>\<open>objects.sort((a, b) => a.distance - b.distance)\<close>: a stable sort on the distance\<close>
  "getObjectsNear w x y radius = sort_key obj_distance (objects_in_range w x y radius)"

definition getNPCsNear :: "world \<Rightarrow> real \<Rightarrow> real \<Rightarrow> real \<Rightarrow> npc_near list" where
  "getNPCsNear w x y radius =
     sort_key npc_distance
       (filter (\<lambda>n. npc_distance n \<le> radius)
          (map (\<lambda>n. near_npc n (hypot (npc_x n - x) (npc_y n - y))) (npcs w)))"

definition getBuildingsNear :: "world \<Rightarrow> real \<Rightarrow> real \<Rightarrow> real \<Rightarrow> building_near list" where
  "getBuildingsNear w x y radius =
     sort_key b_distance
       (filter (\<lambda>b. b_distance b \<le> radius)
          (map (\<lambda>b. near_building b
                  (hypot (b_x b + b_width b / 2 - x) (b_y b + b_height b / 2 - y)))
             (buildings w)))"

section \<open>Well-formed generators\<close>

definition unit_gradients :: "SimplexNoise \<Rightarrow> bool" where
  "unit_gradients nf \<longleftrightarrow>
     length (gradients nf) = 256 \<and>
     (\<forall>g \<in> set (gradients nf). gx g * gx g + gy g * gy g = 1)"

definition rng_ok :: "SeededRandom \<Rightarrow> bool" where
  \<comment> \<open>the two constants the constructor sets and no method changes\<close>
  "rng_ok g \<longleftrightarrow> rng_m g = 2147483647 \<and> rng_a g = 16807"

section \<open>Sequences of calls\<close>

fun getChunk_seq :: "world \<Rightarrow> runtime \<Rightarrow> (int \<times> int) list \<Rightarrow> world \<times> runtime" where
  \<comment> \<open>\<open>getChunk\<close> called for one coordinate after the other, as \<open>preGenerateChunks\<close> and
      the renderer do\<close>
  "getChunk_seq w rt [] = (w, rt)"
| "getChunk_seq w rt ((cx, cy) # ks) =
     (let (c, w', rt') = getChunk w rt cx cy in getChunk_seq w' rt' ks)"

section \<open>Harvesting, as the claim words it\<close>

text \<open>
  The harvest is compared with two plain descriptions: the world without the object of
  a given id, and the world in which that object is flagged as not harvestable. Both
  keep every chunk, and every other object, in place.
\<close>

definition chunk_objects :: "((int \<times> int) \<times> chunk) list \<Rightarrow> wobject list" where
  "chunk_objects cs = concat (map (\<lambda>(k, c). objects c) cs)"

definition all_objects :: "world \<Rightarrow> wobject list" where
  "all_objects w = chunk_objects (chunks w)"

definition on_objects :: "(wobject list \<Rightarrow> wobject list) \<Rightarrow> ((int \<times> int) \<times> chunk) list \<Rightarrow> ((int \<times> int) \<times> chunk) list" where
  "on_objects f cs = map (\<lambda>(k, c). (k, c\<lparr>objects := f (objects c)\<rparr>)) cs"

definition remove_object :: "entity_id \<Rightarrow> world \<Rightarrow> world" where
  "remove_object i w = w\<lparr>chunks := on_objects (filter (\<lambda>ob. obj_id ob \<noteq> i)) (chunks w)\<rparr>"

definition deplete_object :: "entity_id \<Rightarrow> world \<Rightarrow> world" where
  "deplete_object i w =
     w\<lparr>chunks := on_objects (map (\<lambda>ob. if obj_id ob = i then ob\<lparr>obj_harvestable := False\<rparr> else ob)) (chunks w)\<rparr>"

text \<open>
  The counter of an id, and the invariant of the ids: the objects of the world carry
  distinct ids, none with a counter beyond the process's \<open>idCounter\<close>.
\<close>

definition id_counter :: "entity_id \<Rightarrow> nat" where
  "id_counter i = (case i of Entity t c \<Rightarrow> c)"

definition ids_fresh :: "runtime \<Rightarrow> wobject list \<Rightarrow> bool" where
  "ids_fresh rt obs \<longleftrightarrow>
     distinct (map obj_id obs) \<and> (\<forall>ob \<in> set obs. id_counter (obj_id ob) \<le> idCounter rt)"

section \<open>Sequences of updates\<close>

fun updateNPC_seq :: "npc \<Rightarrow> (world \<times> real \<times> real \<times> real \<times> real \<times> real) list \<Rightarrow> npc" where
  \<comment> \<open>\<open>updateNPC\<close> called tick after tick on one NPC; each call has its own world state,
      \<open>deltaTime\<close>, player position and random draws\<close>
  "updateNPC_seq n [] = n"
| "updateNPC_seq n ((w, deltaTime, playerX, playerY, rnd1, rnd2) # calls) =
     updateNPC_seq (updateNPC w n deltaTime playerX playerY rnd1 rnd2) calls"

definition home_distance :: "npc \<Rightarrow> real" where
  "home_distance n = hypot (npc_x n - npc_homeX n) (npc_y n - npc_homeY n)"

section \<open>Generated content\<close>

text \<open>
  What two generated chunks are compared by: an object without its id, and the part of
  the generation state that the content of a chunk is read from.
\<close>

definition obj_content :: "wobject \<Rightarrow> obj_kind \<times> string option \<times> real \<times> real \<times> bool \<times> string option \<times> int option" where
  "obj_content ob =
     (obj_type ob, obj_treeType ob, obj_x ob, obj_y ob, obj_harvestable ob, obj_resource ob,
      obj_amount ob)"

definition constructed_with :: "int \<Rightarrow> world \<Rightarrow> bool" where
  "constructed_with s w \<longleftrightarrow>
     w_seed w = s \<and> w_noise w = SimplexNoise_new s \<and> biomeNoise w = SimplexNoise_new (s + 1) \<and>
     moistureNoise w = SimplexNoise_new (s + 2)"

definition gen_view :: "gen_state \<Rightarrow> SeededRandom \<times> (obj_kind \<times> string option \<times> real \<times> real \<times> bool \<times> string option \<times> int option) list" where
  "gen_view s = (gs_rng s, map obj_content (gs_objects s))"


section \<open>The spatial queries on an explicit store\<close>

text \<open>
  JavaScript objects and arrays are references, and the spatial queries return objects.
  To say what they write and what their results share with the world, the three queries
  are modelled a second time on an explicit store. The heap is a list of cells, an
  address is an index into it, and an allocation appends a cell. A cell is an entity
  record, the copy of one with its \<open>distance\<close> property, or an array of addresses. The
  store keeps, for each cached chunk, the address of the array \<open>chunk.objects\<close>, and
  the addresses of the arrays \<open>this.npcs\<close> and \<open>this.buildings\<close>.
\<close>

type_synonym addr = nat

datatype cell =
    ObjectCell wobject
  | ObjectNear wobject_near
  | NpcCell npc
  | NpcNear npc_near
  | BuildingCell building
  | BuildingNear building_near
  | ArrayCell "addr list"

record store =
  heap :: "cell list"
  st_seed :: int
  st_chunks :: "((int \<times> int) \<times> addr) list"
  st_npcs :: addr
  st_buildings :: addr

definition alloc :: "cell \<Rightarrow> cell list \<Rightarrow> addr \<times> cell list" where
  "alloc c h = (length h, h @ [c])"

definition array_at :: "cell list \<Rightarrow> addr \<Rightarrow> addr list" where
  "array_at h a = (case h ! a of ArrayCell as \<Rightarrow> as | _ \<Rightarrow> [])"

definition cell_distance :: "cell \<Rightarrow> real" where
  "cell_distance c =
     (case c of ObjectNear e \<Rightarrow> obj_distance e | NpcNear e \<Rightarrow> npc_distance e
      | BuildingNear e \<Rightarrow> b_distance e | _ \<Rightarrow> 0)"

definition distance_at :: "cell list \<Rightarrow> addr \<Rightarrow> real" where
  "distance_at h a = cell_distance (h ! a)"

text \<open>
  \<open>copy_near f\<close> walks an array and allocates, for each element that \<open>f\<close> keeps, the
  object \<open>{ ...entity, distance }\<close>: the body of \<open>Array.prototype.map\<close> in
  \<open>getNPCsNear\<close> and \<open>getBuildingsNear\<close>, and the inner loop of \<open>getObjectsNear\<close>
  with its test \<open>dist <= radius\<close>.
\<close>

fun copy_near :: "(cell \<Rightarrow> cell option) \<Rightarrow> addr list \<Rightarrow> cell list \<Rightarrow> addr list \<times> cell list" where
  "copy_near f [] h = ([], h)"
| "copy_near f (a # as) h =
     (case f (h ! a) of
        None \<Rightarrow> copy_near f as h
      | Some c \<Rightarrow>
          (let (a', h1) = alloc c h;
               (rest, h2) = copy_near f as h1
           in (a' # rest, h2)))"

text \<open>
  The copies of the three kinds of entity. An array of a store that represents a world
  holds cells of its own kind only, so the last case of each function is never taken.
\<close>

definition object_copy :: "real \<Rightarrow> real \<Rightarrow> real \<Rightarrow> cell \<Rightarrow> cell option" where
  "object_copy x y radius c =
     (case c of
        ObjectCell ob \<Rightarrow>
          (let dist = hypot (obj_x ob - x) (obj_y ob - y)
           in if dist \<le> radius then Some (ObjectNear (near_object ob dist)) else None)
      | _ \<Rightarrow> None)"

definition npc_copy :: "real \<Rightarrow> real \<Rightarrow> cell \<Rightarrow> cell option" where
  "npc_copy x y c =
     (case c of NpcCell n \<Rightarrow> Some (NpcNear (near_npc n (hypot (npc_x n - x) (npc_y n - y))))
      | _ \<Rightarrow> None)"

definition building_copy :: "real \<Rightarrow> real \<Rightarrow> cell \<Rightarrow> cell option" where
  "building_copy x y c =
     (case c of
        BuildingCell b \<Rightarrow>
          Some (BuildingNear (near_building b
            (hypot (b_x b + b_width b / 2 - x) (b_y b + b_height b / 2 - y))))
      | _ \<Rightarrow> None)"

text \<open>
  \<open>getObjectsNear\<close>: the array \<open>objects\<close> is allocated first; the elements pushed
  to it are collected and written to it when it is sorted in place. A key that is not
  in the cache is skipped.
\<close>

fun gather_objects :: "store \<Rightarrow> real \<Rightarrow> real \<Rightarrow> real \<Rightarrow> (int \<times> int) list \<Rightarrow> addr list \<times> cell list \<Rightarrow> addr list \<times> cell list" where
  "gather_objects st x y radius [] (elems, h) = (elems, h)"
| "gather_objects st x y radius (key # keys) (elems, h) =
     (case map_of (st_chunks st) key of
        None \<Rightarrow> gather_objects st x y radius keys (elems, h)
      | Some arr \<Rightarrow>
          (let (new, h') = copy_near (object_copy x y radius) (array_at h arr) h
           in gather_objects st x y radius keys (elems @ new, h')))"

definition getObjectsNear_store :: "store \<Rightarrow> real \<Rightarrow> real \<Rightarrow> real \<Rightarrow> addr \<times> store" where
  "getObjectsNear_store st x y radius =
     (let (objs, h0) = alloc (ArrayCell []) (heap st);
          (elems, h1) = gather_objects st x y radius (near_chunks x y) ([], h0);
          h2 = h1[objs := ArrayCell (sort_key (distance_at h1) elems)]
      in (objs, st\<lparr>heap := h2\<rparr>))"

text \<open>
  \<open>source.map(copy).filter(e => e.distance <= radius).sort(by distance)\<close>: \<open>map\<close> and
  \<open>filter\<close> each allocate a new array, and \<open>sort\<close> sorts the array \<open>filter\<close> made,
  in place, and returns it.
\<close>

definition map_filter_sort :: "(cell \<Rightarrow> cell option) \<Rightarrow> real \<Rightarrow> addr \<Rightarrow> cell list \<Rightarrow> addr \<times> cell list" where
  "map_filter_sort f radius src h =
     (let (copies, h1) = copy_near f (array_at h src) h;
          (mapped, h2) = alloc (ArrayCell copies) h1;
          (filtered, h3) = alloc (ArrayCell (filter (\<lambda>a. distance_at h2 a \<le> radius) (array_at h2 mapped))) h2;
          h4 = h3[filtered := ArrayCell (sort_key (distance_at h3) (array_at h3 filtered))]
      in (filtered, h4))"

definition getNPCsNear_store :: "store \<Rightarrow> real \<Rightarrow> real \<Rightarrow> real \<Rightarrow> addr \<times> store" where
  "getNPCsNear_store st x y radius =
     (let (res, h) = map_filter_sort (npc_copy x y) radius (st_npcs st) (heap st)
      in (res, st\<lparr>heap := h\<rparr>))"

definition getBuildingsNear_store :: "store \<Rightarrow> real \<Rightarrow> real \<Rightarrow> real \<Rightarrow> addr \<times> store" where
  "getBuildingsNear_store st x y radius =
     (let (res, h) = map_filter_sort (building_copy x y) radius (st_buildings st) (heap st)
      in (res, st\<lparr>heap := h\<rparr>))"

text \<open>
  A store represents a world value when its arrays hold, in order, cells with the
  world's entities. \<open>untouched st st'\<close>: \<open>st'\<close> has the fields of \<open>st\<close> and, at every
  address of \<open>st\<close>, the cell of \<open>st\<close>. \<open>fresh_result st st' res cs\<close>: \<open>res\<close> is an
  array allocated after \<open>st\<close>, its elements are addresses allocated after \<open>st\<close>, and
  they hold the cells \<open>cs\<close>.
\<close>

definition holds_array :: "cell list \<Rightarrow> addr \<Rightarrow> cell list \<Rightarrow> bool" where
  "holds_array h a cs \<longleftrightarrow>
     a < length h \<and> set (array_at h a) \<subseteq> {..<length h} \<and> h ! a = ArrayCell (array_at h a) \<and>
     map (\<lambda>e. h ! e) (array_at h a) = cs"

definition represents :: "store \<Rightarrow> world \<Rightarrow> bool" where
  "represents st w \<longleftrightarrow>
     st_seed st = w_seed w \<and>
     list_all2 (\<lambda>(k, a) (k', c). k = k' \<and> holds_array (heap st) a (map ObjectCell (objects c)))
       (st_chunks st) (chunks w) \<and>
     holds_array (heap st) (st_npcs st) (map NpcCell (npcs w)) \<and>
     holds_array (heap st) (st_buildings st) (map BuildingCell (buildings w))"

definition untouched :: "store \<Rightarrow> store \<Rightarrow> bool" where
  "untouched st st' \<longleftrightarrow>
     st_seed st' = st_seed st \<and> st_chunks st' = st_chunks st \<and> st_npcs st' = st_npcs st \<and>
     st_buildings st' = st_buildings st \<and> length (heap st) \<le> length (heap st') \<and>
     (\<forall>a < length (heap st). heap st' ! a = heap st ! a)"

definition fresh_result :: "store \<Rightarrow> store \<Rightarrow> addr \<Rightarrow> cell list \<Rightarrow> bool" where
  "fresh_result st st' res cs \<longleftrightarrow>
     length (heap st) \<le> res \<and> res < length (heap st') \<and>
     (\<exists>as. heap st' ! res = ArrayCell as \<and>
        (\<forall>a \<in> set as. length (heap st) \<le> a \<and> a < length (heap st')) \<and>
        map (\<lambda>a. heap st' ! a) as = cs)"

text \<open>The part of the value-level \<open>getObjectsNear\<close> that one chunk key contributes.\<close>

definition chunk_near :: "world \<Rightarrow> real \<Rightarrow> real \<Rightarrow> real \<Rightarrow> (int \<times> int) \<Rightarrow> wobject_near list" where
  "chunk_near w x y radius key =
     (case map_of (chunks w) key of
        None \<Rightarrow> []
      | Some c \<Rightarrow>
          map (\<lambda>ob. near_object ob (hypot (obj_x ob - x) (obj_y ob - y)))
            (filter (\<lambda>ob. hypot (obj_x ob - x) (obj_y ob - y) \<le> radius) (objects c)))"

section \<open>Example data\<close>

definition demo_rt :: runtime where
  "demo_rt = \<lparr>idCounter = 6, clock = (\<lambda>k. 1000 + int k), timers = []\<rparr>"

definition demo_tree :: wobject where
  "demo_tree =
     \<lparr>obj_id = Entity 1000 1, obj_type = Tree, obj_treeType = Some ''oak'', obj_x = 3, obj_y = 0,
      obj_harvestable = True, obj_resource = Some ''wood'', obj_amount = Some 3\<rparr>"

definition demo_flower :: wobject where
  "demo_flower =
     \<lparr>obj_id = Entity 1000 2, obj_type = Flower, obj_treeType = None, obj_x = 0, obj_y = 2,
      obj_harvestable = True, obj_resource = Some ''flower'', obj_amount = Some 1\<rparr>"

definition demo_chunk :: chunk where
  "demo_chunk =
     \<lparr>chunk_x = 0, chunk_y = 0, tiles = [], objects = [demo_tree, demo_flower], generated = True\<rparr>"

definition demo_npc :: npc where
  "demo_npc =
     \<lparr>npc_id = Entity 1000 3, npc_type = Some ''guard'', npc_x = 0, npc_y = 5, npc_homeX = 0,
      npc_homeY = 5, npc_direction = 0, npc_state = Idle, npc_stateTimer = 1,
      npc_interactable = True\<rparr>"

definition demo_far_well :: building where
  "demo_far_well =
     \<lparr>b_id = Entity 1000 4, b_type = Some Well, b_x = - 20, b_y = 40, b_width = 40, b_height = 40,
      b_door = False, b_interactable = True\<rparr>"

definition demo_world :: world where
  "demo_world =
     (World_new 12345)\<lparr>chunks := [((0, 0), demo_chunk)], buildings := [demo_far_well],
                        npcs := [demo_npc]\<rparr>"




definition demo_store :: store where
  "demo_store =
     \<lparr>heap = [ObjectCell demo_tree, ObjectCell demo_flower, ArrayCell [0, 1], NpcCell demo_npc,
              ArrayCell [3], BuildingCell demo_far_well, ArrayCell [5]],
      st_seed = 12345, st_chunks = [((0, 0), 2)], st_npcs = 4, st_buildings = 6\<rparr>"


chapter \<open>Properties\<close>

section \<open>SeededRandom: the stream\<close>

lemma rng_ok_new: "rng_ok (SeededRandom_new s)"
  by (simp add: rng_ok_def SeededRandom_new_def)

lemma rng_ok_next: "rng_ok g \<Longrightarrow> rng_ok (snd (rng_next g))"
  by (simp add: rng_ok_def rng_next_def Let_def)

text \<open>
  From a state that is not negative the generator is the Park-Miller generator: the
  state stays in \<open>[0, 2^31 - 1)\<close>, \<open>next\<close> lies in \<open>[0, 1)\<close> and \<open>nextInt\<close> in
  \<open>[min, max]\<close>.
\<close>

lemma rng_next_state_nonneg:
  assumes "rng_ok g" "0 \<le> rng_state g"
  shows "rng_state (snd (rng_next g)) = (16807 * rng_state g) mod (2 ^ 31 - 1)"
    and "0 \<le> rng_state (snd (rng_next g))"
  using assms by (auto simp: rng_ok_def rng_next_def js_rem_def Let_def sgn_if)

lemma rng_next_unit_nonneg:
  assumes "rng_ok g" "0 \<le> rng_state g"
  shows "0 \<le> fst (rng_next g) \<and> fst (rng_next g) < 1"
  using assms by (auto simp: rng_ok_def rng_next_def js_rem_def Let_def sgn_if)

lemma floor_scaled_unit:
  fixes r :: real and n :: int
  assumes "0 \<le> r" "r < 1" "1 \<le> n"
  shows "0 \<le> \<lfloor>r * real_of_int n\<rfloor> \<and> \<lfloor>r * real_of_int n\<rfloor> \<le> n - 1"
proof -
  have "0 \<le> r * real_of_int n" using assms by simp
  then have lo: "0 \<le> \<lfloor>r * real_of_int n\<rfloor>" by simp
  have "r * real_of_int n < real_of_int n" using assms by simp
  then have "\<lfloor>r * real_of_int n\<rfloor> < n" by (simp add: floor_less_iff)
  with lo show ?thesis by simp
qed

lemma rng_nextInt_range_nonneg:
  assumes "rng_ok g" "0 \<le> rng_state g" "lo \<le> hi"
  shows "lo \<le> fst (rng_nextInt g lo hi) \<and> fst (rng_nextInt g lo hi) \<le> hi"
  using floor_scaled_unit [of "fst (rng_next g)" "hi - lo + 1"]
    rng_next_unit_nonneg [OF assms(1,2)] assms(3)
  by (simp add: rng_nextInt_def split_beta)

text \<open>
  From a state that is not positive the stream never recovers: every draw is at most 0
  and \<open>nextInt(min, max)\<close> is at most \<open>min\<close>.
\<close>

lemma rng_next_nonpos:
  assumes "rng_ok g" "rng_state g \<le> 0"
  shows "fst (rng_next g) \<le> 0 \<and> rng_state (snd (rng_next g)) \<le> 0"
proof -
  have "js_rem (16807 * rng_state g) 2147483647 \<le> 0"
    using assms(2) by (simp add: js_rem_def sgn_if mult_le_0_iff)
  then show ?thesis using assms(1)
    by (simp add: rng_next_def rng_ok_def Let_def divide_le_0_iff)
qed

lemma rng_nextInt_nonpos:
  assumes "rng_ok g" "rng_state g \<le> 0" "lo \<le> hi"
  shows "fst (rng_nextInt g lo hi) \<le> lo"
proof -
  from rng_next_nonpos [OF assms(1,2)] have "fst (rng_next g) \<le> 0" by simp
  moreover have "0 \<le> real_of_int (hi - lo + 1)" using assms(3) by simp
  ultimately have "fst (rng_next g) * real_of_int (hi - lo + 1) \<le> 0"
    by (rule mult_nonpos_nonneg)
  then have "\<lfloor>fst (rng_next g) * real_of_int (hi - lo + 1)\<rfloor> \<le> 0" by (simp add: floor_le_iff)
  then show ?thesis by (simp add: rng_nextInt_def split_beta)
qed


text \<open>
  C2. The claim asks for \<open>next()\<close> in \<open>[0, 1)\<close>, a state advanced by the mathematical
  \<open>mod\<close>, and \<open>nextInt(min, max)\<close> in \<open>[min, max]\<close>, for every seed, the negative
  chunk seeds included. The code computes the remainder with \<open>%\<close>, which keeps the sign
  of a negative state. A world of seed 345 seeds the stream of chunk \<open>(-1, 0)\<close> with
  \<open>-655\<close>; its first \<open>next()\<close> is negative, its state is not the mathematical remainder,
  and \<open>nextInt(2, 4)\<close> on the fresh stream answers 1.
\<close>

theorem seeded_random_negative_chunk_seed:
  "chunkSeed 345 (- 1) 0 = - 655 \<and>
   fst (rng_next (SeededRandom_new (chunkSeed 345 (- 1) 0))) = - (11008585 / 2147483647) \<and>
   rng_state (snd (rng_next (SeededRandom_new (chunkSeed 345 (- 1) 0)))) = - 11008585 \<and>
   (16807 * (- 655)) mod (2 ^ 31 - 1) = (2136475062 :: int) \<and>
   fst (rng_nextInt (SeededRandom_new (chunkSeed 345 (- 1) 0)) 2 4) = 1"
  by (simp add: rng_nextInt_def rng_next_def SeededRandom_new_def chunkSeed_def js_rem_def)

section \<open>Terrain at the origin\<close>



section \<open>Walkability\<close>




section \<open>The chunk cache\<close>

lemma getChunk_cached:
  "map_of (chunks w) (cx, cy) = Some ch \<Longrightarrow> getChunk w rt cx cy = (Some ch, w, rt)"
  by (simp add: getChunk_def getChunkKey_def)

lemma generateChunk_caches:
  "generateChunk w rt cx cy = (ch, w', rt') \<Longrightarrow>
    map_of (chunks w') = (map_of (chunks w))((cx, cy) \<mapsto> ch)"
  by (auto simp: generateChunk_def getChunkKey_def Let_def update_conv')

lemma getChunk_uncached:
  assumes "map_of (chunks w) (cx, cy) = None"
  shows "getChunk w rt cx cy =
    (Some (fst (generateChunk w rt cx cy)), snd (generateChunk w rt cx cy))"
proof -
  obtain ch w' rt' where g: "generateChunk w rt cx cy = (ch, w', rt')"
    by (cases "generateChunk w rt cx cy") auto
  from generateChunk_caches [OF g] have "map_of (chunks w') (cx, cy) = Some ch" by simp
  with assms g show ?thesis by (simp add: getChunk_def getChunkKey_def)
qed

lemma getChunk_keeps:
  assumes "map_of (chunks w) k = Some ch"
  shows "map_of (chunks (fst (snd (getChunk w rt cx cy)))) k = Some ch"
proof (cases "map_of (chunks w) (cx, cy)")
  case (Some c0)
  then show ?thesis using assms by (simp add: getChunk_cached)
next
  case None
  then have ne: "k \<noteq> (cx, cy)" using assms by auto
  obtain c' w' rt' where g: "generateChunk w rt cx cy = (c', w', rt')"
    by (cases "generateChunk w rt cx cy") auto
  from generateChunk_caches [OF g] ne assms have "map_of (chunks w') k = Some ch" by simp
  with None g show ?thesis by (simp add: getChunk_uncached)
qed

lemma getChunk_seq_keeps:
  "map_of (chunks w) k = Some ch \<Longrightarrow> map_of (chunks (fst (getChunk_seq w rt ks))) k = Some ch"
proof (induction ks arbitrary: w rt)
  case Nil
  then show ?case by simp
next
  case (Cons p ks)
  obtain cx cy where p: "p = (cx, cy)" by (cases p)
  obtain c w' rt' where g: "getChunk w rt cx cy = (c, w', rt')"
    by (cases "getChunk w rt cx cy") auto
  from getChunk_keeps [OF Cons.prems, of rt cx cy] g have "map_of (chunks w') k = Some ch" by simp
  from Cons.IH [OF this] show ?case by (simp add: p g)
qed

text \<open>
  C6. A call of \<open>getChunk\<close> returns a chunk. If the coordinate was not cached the call
  is the generator's call, whose chunk it caches and returns; if it was cached the call
  returns the cached chunk and changes nothing. After the call, and after any further
  calls of \<open>getChunk\<close> for any coordinates, a call for the same coordinate returns the
  same chunk and leaves the world, the building list and the id counter as they are:
  the generator does not run again, and the chunk is still in the cache.
\<close>

theorem getChunk_idempotent:
  assumes "getChunk w rt cx cy = (c, w1, rt1)"
    and "getChunk_seq w1 rt1 ks = (w2, rt2)"
  shows "(\<exists>ch. c = Some ch \<and> map_of (chunks w1) (cx, cy) = Some ch \<and>
            getChunk w2 rt2 cx cy = (Some ch, w2, rt2)) \<and>
         (if map_of (chunks w) (cx, cy) = None
          then (c, w1, rt1) = (Some (fst (generateChunk w rt cx cy)), snd (generateChunk w rt cx cy))
          else (c, w1, rt1) = (map_of (chunks w) (cx, cy), w, rt))"
proof -
  have "\<exists>ch. c = Some ch \<and> map_of (chunks w1) (cx, cy) = Some ch"
  proof (cases "map_of (chunks w) (cx, cy)")
    case None
    from getChunk_uncached [OF None, of rt] assms(1)
    have c: "c = Some (fst (generateChunk w rt cx cy))"
      and w1: "(w1, rt1) = snd (generateChunk w rt cx cy)" by auto
    obtain ch w' rt' where g: "generateChunk w rt cx cy = (ch, w', rt')"
      by (cases "generateChunk w rt cx cy") auto
    from generateChunk_caches [OF g] c w1 g show ?thesis by simp
  next
    case (Some ch)
    from getChunk_cached [OF Some, of rt] assms(1) have "c = Some ch" "w1 = w" by simp_all
    with Some show ?thesis by simp
  qed
  then obtain ch where c: "c = Some ch" and m: "map_of (chunks w1) (cx, cy) = Some ch" by blast
  from getChunk_seq_keeps [OF m, of rt1 ks] assms(2)
  have "map_of (chunks w2) (cx, cy) = Some ch" by simp
  then have "getChunk w2 rt2 cx cy = (Some ch, w2, rt2)" by (simp add: getChunk_cached)
  moreover have "map_of (chunks w) (cx, cy) = None \<Longrightarrow>
      (c, w1, rt1) = (Some (fst (generateChunk w rt cx cy)), snd (generateChunk w rt cx cy))"
    using assms(1) by (auto simp: getChunk_uncached)
  moreover have "map_of (chunks w) (cx, cy) \<noteq> None \<Longrightarrow>
      (c, w1, rt1) = (map_of (chunks w) (cx, cy), w, rt)"
    using assms(1) by (auto simp: getChunk_cached)
  ultimately show ?thesis using c m by auto
qed

theorem getChunk_idempotent_witness:
  "\<exists>ch. fst (getChunk (World_new 12345) demo_rt 3 (- 2)) = Some ch \<and>
     getChunk
       (fst (getChunk_seq (fst (snd (getChunk (World_new 12345) demo_rt 3 (- 2))))
              (snd (snd (getChunk (World_new 12345) demo_rt 3 (- 2)))) [(0, 0), (3, - 2)]))
       (snd (getChunk_seq (fst (snd (getChunk (World_new 12345) demo_rt 3 (- 2))))
              (snd (snd (getChunk (World_new 12345) demo_rt 3 (- 2)))) [(0, 0), (3, - 2)]))
       3 (- 2) =
     (Some ch,
      getChunk_seq (fst (snd (getChunk (World_new 12345) demo_rt 3 (- 2))))
        (snd (snd (getChunk (World_new 12345) demo_rt 3 (- 2)))) [(0, 0), (3, - 2)])"
  using getChunk_idempotent
    [of "World_new 12345" demo_rt 3 "- 2" "fst (getChunk (World_new 12345) demo_rt 3 (- 2))"
      "fst (snd (getChunk (World_new 12345) demo_rt 3 (- 2)))"
      "snd (snd (getChunk (World_new 12345) demo_rt 3 (- 2)))" "[(0, 0), (3, - 2)]"
      "fst (getChunk_seq (fst (snd (getChunk (World_new 12345) demo_rt 3 (- 2))))
              (snd (snd (getChunk (World_new 12345) demo_rt 3 (- 2)))) [(0, 0), (3, - 2)])"
      "snd (getChunk_seq (fst (snd (getChunk (World_new 12345) demo_rt 3 (- 2))))
              (snd (snd (getChunk (World_new 12345) demo_rt 3 (- 2)))) [(0, 0), (3, - 2)])"]
  by (metis prod.collapse)

section \<open>Spatial queries\<close>

lemma hypot_axis: "hypot a 0 = \<bar>a\<bar>" "hypot 0 b = \<bar>b\<bar>"
  by (simp_all add: hypot_def)

text \<open>
  C5. The three queries return their entries in ascending order of the \<open>distance\<close> they
  carry; that distance is the Euclidean distance from the query point to the entity's
  position (to the centre of the footprint, for a building) and is at most the radius.
\<close>

theorem spatial_queries_sorted_within_radius:
  "sorted (map obj_distance (getObjectsNear w x y r)) \<and>
   (\<forall>e \<in> set (getObjectsNear w x y r).
      obj_distance e = hypot (obj_x e - x) (obj_y e - y) \<and> obj_distance e \<le> r) \<and>
   sorted (map npc_distance (getNPCsNear w x y r)) \<and>
   (\<forall>e \<in> set (getNPCsNear w x y r).
      npc_distance e = hypot (npc_x e - x) (npc_y e - y) \<and> npc_distance e \<le> r) \<and>
   sorted (map b_distance (getBuildingsNear w x y r)) \<and>
   (\<forall>e \<in> set (getBuildingsNear w x y r).
      b_distance e = hypot (b_x e + b_width e / 2 - x) (b_y e + b_height e / 2 - y) \<and>
      b_distance e \<le> r)"
  by (auto simp: getObjectsNear_def objects_in_range_def getNPCsNear_def getBuildingsNear_def
      near_object_def near_npc_def near_building_def wobject.defs wobject_near.defs npc.defs
      npc_near.defs building.defs building_near.defs split: option.splits)

lemma demo_getObjectsNear:
  "getObjectsNear demo_world 0 0 100 = [near_object demo_flower 2, near_object demo_tree 3]"
  by (simp add: getObjectsNear_def objects_in_range_def near_chunks_def getChunkKey_def
      demo_world_def demo_chunk_def demo_tree_def demo_flower_def CHUNK_SIZE_def TILE_SIZE_def
      near_object_def wobject.defs wobject_near.defs hypot_axis)

lemma demo_getNPCsNear: "getNPCsNear demo_world 0 0 100 = [near_npc demo_npc 5]"
  by (simp add: getNPCsNear_def demo_world_def demo_npc_def near_npc_def npc.defs npc_near.defs
      hypot_axis)

lemma demo_getBuildingsNear:
  "getBuildingsNear demo_world 0 0 100 = [near_building demo_far_well 60]"
  by (simp add: getBuildingsNear_def demo_world_def demo_far_well_def near_building_def
      building.defs building_near.defs hypot_axis)

theorem spatial_queries_sorted_witness:
  "sorted (map obj_distance (getObjectsNear demo_world 0 0 100)) \<and>
   near_object demo_tree 3 \<in> set (getObjectsNear demo_world 0 0 100) \<and>
   obj_distance (near_object demo_tree 3) \<le> 100 \<and>
   near_npc demo_npc 5 \<in> set (getNPCsNear demo_world 0 0 100) \<and>
   npc_distance (near_npc demo_npc 5) \<le> 100 \<and>
   near_building demo_far_well 60 \<in> set (getBuildingsNear demo_world 0 0 100) \<and>
   b_distance (near_building demo_far_well 60) \<le> 100"
  using spatial_queries_sorted_within_radius [of demo_world 0 0 100]
  by (simp add: demo_getObjectsNear demo_getNPCsNear demo_getBuildingsNear)

section \<open>Harvesting\<close>

lemma findIndex_None: "findIndex P xs = None \<longleftrightarrow> (\<forall>x \<in> set xs. \<not> P x)"
  by (induction xs) auto

lemma findIndex_Some:
  "findIndex P xs = Some i \<Longrightarrow> i < length xs \<and> P (xs ! i)"
  by (induction xs arbitrary: i) (auto split: if_splits)

lemma splice1_filter:
  "distinct (map f xs) \<Longrightarrow> findIndex (\<lambda>x. f x = v) xs = Some i \<Longrightarrow>
    splice1 i xs = filter (\<lambda>x. f x \<noteq> v) xs"
proof (induction xs arbitrary: i)
  case Nil
  then show ?case by simp
next
  case (Cons x xs)
  show ?case
  proof (cases "f x = v")
    case True
    with Cons.prems have "i = 0" by simp
    moreover from True Cons.prems(1) have "\<forall>y \<in> set xs. f y \<noteq> v"
      by (simp add: image_iff) metis
    ultimately have "i = 0" and "\<forall>y \<in> set xs. f y \<noteq> v" by simp_all
    then show ?thesis using True by (simp add: splice1_def)
  next
    case False
    with Cons.prems obtain j where j: "i = Suc j" "findIndex (\<lambda>x. f x = v) xs = Some j" by auto
    with Cons.IH [of j] Cons.prems(1) False show ?thesis by (simp add: splice1_def)
  qed
qed

lemma update_map_if:
  "distinct (map f xs) \<Longrightarrow> findIndex (\<lambda>x. f x = v) xs = Some i \<Longrightarrow>
    xs[i := g (xs ! i)] = map (\<lambda>x. if f x = v then g x else x) xs"
proof (induction xs arbitrary: i)
  case Nil
  then show ?case by simp
next
  case (Cons x xs)
  show ?case
  proof (cases "f x = v")
    case True
    with Cons.prems have "i = 0" by simp
    moreover from True Cons.prems(1) have "\<forall>y \<in> set xs. f y \<noteq> v"
      by (simp add: image_iff) metis
    ultimately have "i = 0" and "\<forall>y \<in> set xs. f y \<noteq> v" by simp_all
    then show ?thesis using True by (simp add: map_idI)
  next
    case False
    with Cons.prems obtain j where j: "i = Suc j" "findIndex (\<lambda>x. f x = v) xs = Some j" by auto
    with Cons.IH [of j] Cons.prems(1) False show ?thesis by simp
  qed
qed

lemma set_objects_subset: "(k, c) \<in> set cs \<Longrightarrow> set (objects c) \<subseteq> set (chunk_objects cs)"
  by (induction cs) (auto simp: chunk_objects_def)

lemma on_objects_Cons:
  "on_objects f ((k, c) # cs) = (k, c\<lparr>objects := f (objects c)\<rparr>) # on_objects f cs"
  by (simp add: on_objects_def)

lemma on_objects_id:
  "(\<And>k c. (k, c) \<in> set cs \<Longrightarrow> f (objects c) = objects c) \<Longrightarrow> on_objects f cs = cs"
  unfolding on_objects_def by (rule map_idI) auto

lemma harvest_loop_miss:
  "(\<forall>ob \<in> set (chunk_objects cs). obj_id ob = i \<longrightarrow> \<not> obj_harvestable ob) \<Longrightarrow>
    harvest_loop cs i = None"
proof (induction cs)
  case Nil
  then show ?case by simp
next
  case (Cons p cs)
  obtain k c where p: "p = (k, c)" by (cases p)
  from Cons.prems have rest: "harvest_loop cs i = None"
    by (intro Cons.IH) (auto simp: chunk_objects_def)
  show ?case
  proof (cases "findIndex (\<lambda>ob. obj_id ob = i) (objects c)")
    case None
    with rest show ?thesis by (simp add: p)
  next
    case (Some j)
    from findIndex_Some [OF Some] have "objects c ! j \<in> set (objects c)" "obj_id (objects c ! j) = i"
      by auto
    with Cons.prems have "\<not> obj_harvestable (objects c ! j)" by (auto simp: chunk_objects_def p)
    with Some rest show ?thesis by (simp add: p)
  qed
qed

lemma harvest_loop_hit:
  assumes "distinct (map obj_id (chunk_objects cs))"
    and "ob \<in> set (chunk_objects cs)" and "obj_id ob = i" and "obj_harvestable ob"
  shows "harvest_loop cs i =
    Some ((obj_resource ob, obj_amount ob),
          (if obj_type ob = Tree \<or> obj_type ob = Rock
           then on_objects (filter (\<lambda>ob. obj_id ob \<noteq> i)) cs
           else on_objects (map (\<lambda>ob. if obj_id ob = i then ob\<lparr>obj_harvestable := False\<rparr> else ob)) cs),
          \<not> (obj_type ob = Tree \<or> obj_type ob = Rock))"
  using assms
proof (induction cs)
  case Nil
  then show ?case by (simp add: chunk_objects_def)
next
  case (Cons p cs)
  obtain k c where p: "p = (k, c)" by (cases p)
  have split: "chunk_objects (p # cs) = objects c @ chunk_objects cs"
    by (simp add: chunk_objects_def p)
  from Cons.prems(1) have dc: "distinct (map obj_id (objects c))"
    and dr: "distinct (map obj_id (chunk_objects cs))"
    and disj: "obj_id ` set (objects c) \<inter> obj_id ` set (chunk_objects cs) = {}"
    by (simp_all add: split)
  show ?case
  proof (cases "findIndex (\<lambda>ob. obj_id ob = i) (objects c)")
    case None
    then have no: "\<forall>x \<in> set (objects c). obj_id x \<noteq> i" by (simp add: findIndex_None)
    with Cons.prems(2,3) have inrest: "ob \<in> set (chunk_objects cs)" by (auto simp: split)
    note ih = Cons.IH [OF dr inrest Cons.prems(3,4)]
    have f1: "filter (\<lambda>ob. obj_id ob \<noteq> i) (objects c) = objects c" using no by simp
    have f2: "map (\<lambda>ob. if obj_id ob = i then ob\<lparr>obj_harvestable := False\<rparr> else ob) (objects c) = objects c"
      using no by (simp add: map_idI)
    have step: "harvest_loop ((k, c) # cs) i =
        map_option (\<lambda>(r, cs, t). (r, (k, c) # cs, t)) (harvest_loop cs i)"
      using None by simp
    show ?thesis
      unfolding p step ih
      by (simp add: on_objects_Cons f1 f2)
  next
    case (Some j)
    from findIndex_Some [OF Some]
    have j: "objects c ! j \<in> set (objects c)" "obj_id (objects c ! j) = i" by auto
    with disj have norest: "\<forall>x \<in> set (chunk_objects cs). obj_id x \<noteq> i" by auto
    with Cons.prems(2,3) have "ob \<in> set (objects c)" by (auto simp: split)
    with j dc Cons.prems(3) have ob: "objects c ! j = ob"
      by (metis distinct_map inj_onD)
    have rest: "on_objects f cs = cs" if "\<And>xs. (\<forall>x \<in> set xs. obj_id x \<noteq> i) \<Longrightarrow> f xs = xs" for f
    proof (rule on_objects_id)
      fix k' c' assume "(k', c') \<in> set cs"
      then have sub: "set (objects c') \<subseteq> set (chunk_objects cs)" by (rule set_objects_subset)
      show "f (objects c') = objects c'"
      proof (rule that)
        show "\<forall>x \<in> set (objects c'). obj_id x \<noteq> i" using norest sub by auto
      qed
    qed
    have r1: "on_objects (filter (\<lambda>ob. obj_id ob \<noteq> i)) cs = cs"
      by (rule rest) simp
    have r2: "on_objects (map (\<lambda>ob. if obj_id ob = i then ob\<lparr>obj_harvestable := False\<rparr> else ob)) cs = cs"
      by (rule rest) (simp add: map_idI)
    have e1: "splice1 j (objects c) = filter (\<lambda>ob. obj_id ob \<noteq> i) (objects c)"
      by (rule splice1_filter [OF dc Some])
    have e2: "(objects c)[j := ob\<lparr>obj_harvestable := False\<rparr>] =
        map (\<lambda>ob. if obj_id ob = i then ob\<lparr>obj_harvestable := False\<rparr> else ob) (objects c)"
      using update_map_if [OF dc Some, of "\<lambda>ob. ob\<lparr>obj_harvestable := False\<rparr>"] by (simp only: ob)
    have step: "harvest_loop ((k, c) # cs) i =
        (if obj_type ob = Tree \<or> obj_type ob = Rock
         then Some ((obj_resource ob, obj_amount ob),
                (k, c\<lparr>objects := splice1 j (objects c)\<rparr>) # cs, False)
         else Some ((obj_resource ob, obj_amount ob),
                (k, c\<lparr>objects := (objects c)[j := ob\<lparr>obj_harvestable := False\<rparr>]\<rparr>) # cs, True))"
      using Cons.prems(4) by (simp add: Some ob Let_def)
    show ?thesis
      unfolding p step e1 e2
      by (simp add: on_objects_Cons r1 r2)
  qed
qed

lemma respawn_deplete:
  assumes "\<forall>ob \<in> set (all_objects w). obj_id ob = i \<longrightarrow> obj_harvestable ob"
  shows "respawn (deplete_object i w) i = w"
proof -
  have one: "map ((\<lambda>ob. if obj_id ob = i then ob\<lparr>obj_harvestable := True\<rparr> else ob) \<circ>
        (\<lambda>ob. if obj_id ob = i then ob\<lparr>obj_harvestable := False\<rparr> else ob)) (objects c) =
      objects c" if "(k, c) \<in> set (chunks w)" for k c
  proof -
    from that have "set (objects c) \<subseteq> set (all_objects w)"
      unfolding all_objects_def by (rule set_objects_subset)
    with assms have "\<forall>ob \<in> set (objects c). obj_id ob = i \<longrightarrow> obj_harvestable ob" by auto
    then show ?thesis by (auto intro!: map_idI)
  qed
  have "map (\<lambda>(k, c). (k, c\<lparr>objects :=
          map (\<lambda>ob. if obj_id ob = i then ob\<lparr>obj_harvestable := True\<rparr> else ob) (objects c)\<rparr>))
        (on_objects (map (\<lambda>ob. if obj_id ob = i then ob\<lparr>obj_harvestable := False\<rparr> else ob)) (chunks w)) =
      chunks w"
    unfolding on_objects_def map_map
    by (rule map_idI) (auto simp: one)
  then show ?thesis by (simp add: respawn_def deplete_object_def)
qed

text \<open>
  C4. In a world whose objects have distinct ids (\<open>generateId\<close> never answers the same
  id twice): if a harvestable object has the id, \<open>harvestObject\<close> returns its resource
  and amount; a tree or a rock is removed from its chunk's object list and nothing else
  changes; any other harvestable object stays in place, flagged as not harvestable, and
  one timer of 30000 ms is scheduled, whose callback restores the world as it was. If no
  harvestable object has the id, the result is \<open>null\<close> and world and timers are
  unchanged.
\<close>

theorem harvestObject_spec:
  assumes "distinct (map obj_id (all_objects w))"
  shows "(\<forall>ob \<in> set (all_objects w). obj_id ob = i \<and> obj_harvestable ob \<longrightarrow>
            harvestObject w rt i =
              (if obj_type ob = Tree \<or> obj_type ob = Rock
               then (Some (obj_resource ob, obj_amount ob), remove_object i w, rt)
               else (Some (obj_resource ob, obj_amount ob), deplete_object i w,
                     rt\<lparr>timers := timers rt @ [(30000, i)]\<rparr>)) \<and>
            respawn (deplete_object i w) i = w) \<and>
         ((\<forall>ob \<in> set (all_objects w). obj_id ob = i \<longrightarrow> \<not> obj_harvestable ob) \<longrightarrow>
            harvestObject w rt i = (None, w, rt))"
proof (intro conjI ballI impI)
  fix ob assume ob: "ob \<in> set (all_objects w)" "obj_id ob = i \<and> obj_harvestable ob"
  from harvest_loop_hit [OF assms [unfolded all_objects_def] ob(1) [unfolded all_objects_def]] ob(2)
  show "harvestObject w rt i =
      (if obj_type ob = Tree \<or> obj_type ob = Rock
       then (Some (obj_resource ob, obj_amount ob), remove_object i w, rt)
       else (Some (obj_resource ob, obj_amount ob), deplete_object i w,
             rt\<lparr>timers := timers rt @ [(30000, i)]\<rparr>))"
    by (simp add: harvestObject_def remove_object_def deplete_object_def)
  have "\<forall>x \<in> set (all_objects w). obj_id x = i \<longrightarrow> obj_harvestable x"
  proof (intro ballI impI)
    fix x assume "x \<in> set (all_objects w)" "obj_id x = i"
    with assms ob have "x = ob" by (metis distinct_map inj_onD)
    with ob(2) show "obj_harvestable x" by simp
  qed
  then show "respawn (deplete_object i w) i = w" by (rule respawn_deplete)
next
  assume "\<forall>ob \<in> set (all_objects w). obj_id ob = i \<longrightarrow> \<not> obj_harvestable ob"
  then have "harvest_loop (chunks w) i = None"
    unfolding all_objects_def by (rule harvest_loop_miss)
  then show "harvestObject w rt i = (None, w, rt)" by (simp add: harvestObject_def)
qed

theorem harvestObject_spec_witness:
  "distinct (map obj_id (all_objects demo_world)) \<and>
   demo_flower \<in> set (all_objects demo_world) \<and> obj_harvestable demo_flower \<and>
   harvestObject demo_world demo_rt (Entity 1000 2) =
     (Some (Some ''flower'', Some 1), deplete_object (Entity 1000 2) demo_world,
      demo_rt\<lparr>timers := [(30000, Entity 1000 2)]\<rparr>) \<and>
   respawn (deplete_object (Entity 1000 2) demo_world) (Entity 1000 2) = demo_world \<and>
   demo_tree \<in> set (all_objects demo_world) \<and> obj_harvestable demo_tree \<and>
   harvestObject demo_world demo_rt (Entity 1000 1) =
     (Some (Some ''wood'', Some 3), remove_object (Entity 1000 1) demo_world, demo_rt) \<and>
   harvestObject demo_world demo_rt (Entity 1000 9) = (None, demo_world, demo_rt)"
  using harvestObject_spec [of demo_world "Entity 1000 2" demo_rt]
    harvestObject_spec [of demo_world "Entity 1000 1" demo_rt]
    harvestObject_spec [of demo_world "Entity 1000 9" demo_rt]
  by (simp add: all_objects_def chunk_objects_def demo_world_def demo_chunk_def demo_tree_def
      demo_flower_def demo_rt_def)

section \<open>NPCs\<close>

lemma updateNPC_state_keeps:
  "npc_x (updateNPC_state n dt px py r1 r2) = npc_x n"
  "npc_y (updateNPC_state n dt px py r1 r2) = npc_y n"
  "npc_homeX (updateNPC_state n dt px py r1 r2) = npc_homeX n"
  "npc_homeY (updateNPC_state n dt px py r1 r2) = npc_homeY n"
  by (simp_all add: updateNPC_state_def Let_def)

lemma updateNPC_home:
  "npc_homeX (updateNPC w n dt px py r1 r2) = npc_homeX n"
  "npc_homeY (updateNPC w n dt px py r1 r2) = npc_homeY n"
  by (simp_all add: updateNPC_def Let_def updateNPC_state_keeps)

lemma updateNPC_tether:
  "home_distance n < 150 \<Longrightarrow> home_distance (updateNPC w n dt px py r1 r2) < 150"
  by (simp add: updateNPC_def Let_def home_distance_def updateNPC_state_keeps)

lemma updateNPC_seq_tether:
  "home_distance n < 150 \<Longrightarrow>
    home_distance (updateNPC_seq n calls) < 150 \<and>
    npc_homeX (updateNPC_seq n calls) = npc_homeX n \<and>
    npc_homeY (updateNPC_seq n calls) = npc_homeY n"
proof (induction calls arbitrary: n)
  case Nil
  then show ?case by simp
next
  case (Cons c calls)
  obtain w dt px py r1 r2 where c: "c = (w, dt, px, py, r1, r2)" by (cases c)
  from Cons.IH [OF updateNPC_tether [OF Cons.prems, of w dt px py r1 r2]]
  show ?case by (simp add: c updateNPC_home)
qed

lemma spawn_one_appends:
  assumes "spawn_one w px py (g, ns, rt) = (g', ns', rt')"
  shows "\<exists>new. ns' = ns @ new \<and> list_all (\<lambda>n. npc_homeX n = npc_x n \<and> npc_homeY n = npc_y n) new"
  using assms
  by (auto simp: spawn_one_def Let_def split_beta split: if_splits)

lemma spawn_funpow_appends:
  "((spawn_one w px py) ^^ k) (g, ns, rt) = (g', ns', rt') \<Longrightarrow>
    \<exists>new. ns' = ns @ new \<and> list_all (\<lambda>n. npc_homeX n = npc_x n \<and> npc_homeY n = npc_y n) new"
proof (induction k arbitrary: g' ns' rt')
  case 0
  then show ?case by simp
next
  case (Suc k)
  obtain g1 ns1 rt1 where mid: "((spawn_one w px py) ^^ k) (g, ns, rt) = (g1, ns1, rt1)"
    by (cases "((spawn_one w px py) ^^ k) (g, ns, rt)") auto
  from Suc.IH [OF mid] obtain new1 where n1: "ns1 = ns @ new1"
    "list_all (\<lambda>n. npc_homeX n = npc_x n \<and> npc_homeY n = npc_y n) new1" by blast
  from Suc.prems mid have "spawn_one w px py (g1, ns1, rt1) = (g', ns', rt')" by simp
  from spawn_one_appends [OF this] obtain new2 where n2: "ns' = ns1 @ new2"
    "list_all (\<lambda>n. npc_homeX n = npc_x n \<and> npc_homeY n = npc_y n) new2" by blast
  from n1 n2 have "ns' = ns @ (new1 @ new2)" 
    "list_all (\<lambda>n. npc_homeX n = npc_x n \<and> npc_homeY n = npc_y n) (new1 @ new2)" by simp_all
  then show ?case by blast
qed

lemma spawnNPCs_new:
  "\<exists>new. npcs (fst (spawnNPCs w rt px py)) = npcs w @ new \<and>
     list_all (\<lambda>n. npc_homeX n = npc_x n \<and> npc_homeY n = npc_y n) new"
proof -
  obtain g' ns' rt' where r: "((spawn_one w px py) ^^ NPC_COUNT) (SeededRandom_new (w_seed w + 999), npcs w, rt) = (g', ns', rt')"
    by (cases "((spawn_one w px py) ^^ NPC_COUNT) (SeededRandom_new (w_seed w + 999), npcs w, rt)") auto
  from spawn_funpow_appends [OF r] show ?thesis by (simp add: spawnNPCs_def r)
qed

lemma home_distance_at_home:
  "npc_homeX n = npc_x n \<and> npc_homeY n = npc_y n \<Longrightarrow> home_distance n < 150"
  by (simp add: home_distance_def hypot_def)

text \<open>
  C9. \<open>spawnNPCs\<close> keeps the NPCs there were and appends NPCs whose home is their
  position. An NPC whose home is its position stays, after any sequence of
  \<open>updateNPC\<close> calls (any worlds, time steps, player positions and random draws),
  less than 150px from that home, which never changes. One call either moves the NPC to
  the step's target, when the state decided for the tick is walking and the target is
  less than 150px from home and walkable, or leaves the position as it is; in the
  latter case a walking NPC differs from the decided state only in its direction, which
  faces home.
\<close>

theorem npc_stays_near_home:
  "(take (length (npcs w)) (npcs (fst (spawnNPCs w rt px py))) = npcs w \<and>
    list_all (\<lambda>n. npc_homeX n = npc_x n \<and> npc_homeY n = npc_y n)
      (drop (length (npcs w)) (npcs (fst (spawnNPCs w rt px py))))) \<and>
   (npc_homeX n = npc_x n \<and> npc_homeY n = npc_y n \<longrightarrow>
      hypot (npc_x (updateNPC_seq n calls) - npc_homeX n) (npc_y (updateNPC_seq n calls) - npc_homeY n) < 150 \<and>
      npc_homeX (updateNPC_seq n calls) = npc_homeX n \<and>
      npc_homeY (updateNPC_seq n calls) = npc_homeY n) \<and>
   (let n3 = updateNPC_state m deltaTime playerX playerY rnd1 rnd2;
        newX = npc_x m + cos (npc_direction n3) * 30 * deltaTime;
        newY = npc_y m + sin (npc_direction n3) * 30 * deltaTime;
        m' = updateNPC w' m deltaTime playerX playerY rnd1 rnd2
    in if npc_state n3 = Walking \<and> hypot (newX - npc_homeX m) (newY - npc_homeY m) < 150 \<and>
          isWalkable w' newX newY
       then m' = n3\<lparr>npc_x := newX, npc_y := newY\<rparr>
       else npc_x m' = npc_x m \<and> npc_y m' = npc_y m \<and>
            (npc_state n3 = Walking \<longrightarrow>
               m' = n3\<lparr>npc_direction := atan2 (npc_homeY m - npc_y m) (npc_homeX m - npc_x m)\<rparr>))"
proof (intro conjI impI)
  from spawnNPCs_new [of w rt px py] obtain new
    where new: "npcs (fst (spawnNPCs w rt px py)) = npcs w @ new"
      "list_all (\<lambda>n. npc_homeX n = npc_x n \<and> npc_homeY n = npc_y n) new" by blast
  show "take (length (npcs w)) (npcs (fst (spawnNPCs w rt px py))) = npcs w"
    by (simp add: new(1))
  show "list_all (\<lambda>n. npc_homeX n = npc_x n \<and> npc_homeY n = npc_y n)
      (drop (length (npcs w)) (npcs (fst (spawnNPCs w rt px py))))"
    using new(2) by (simp add: new(1))
next
  assume "npc_homeX n = npc_x n \<and> npc_homeY n = npc_y n"
  then have "home_distance n < 150" by (rule home_distance_at_home)
  from updateNPC_seq_tether [OF this, of calls]
  have d: "home_distance (updateNPC_seq n calls) < 150"
    and hx: "npc_homeX (updateNPC_seq n calls) = npc_homeX n"
    and hy: "npc_homeY (updateNPC_seq n calls) = npc_homeY n" by simp_all
  from d show "hypot (npc_x (updateNPC_seq n calls) - npc_homeX n) (npc_y (updateNPC_seq n calls) - npc_homeY n) < 150"
    by (simp add: home_distance_def hx hy)
  show "npc_homeX (updateNPC_seq n calls) = npc_homeX n" by (rule hx)
  show "npc_homeY (updateNPC_seq n calls) = npc_homeY n" by (rule hy)
next
  show "let n3 = updateNPC_state m deltaTime playerX playerY rnd1 rnd2;
        newX = npc_x m + cos (npc_direction n3) * 30 * deltaTime;
        newY = npc_y m + sin (npc_direction n3) * 30 * deltaTime;
        m' = updateNPC w' m deltaTime playerX playerY rnd1 rnd2
    in if npc_state n3 = Walking \<and> hypot (newX - npc_homeX m) (newY - npc_homeY m) < 150 \<and>
          isWalkable w' newX newY
       then m' = n3\<lparr>npc_x := newX, npc_y := newY\<rparr>
       else npc_x m' = npc_x m \<and> npc_y m' = npc_y m \<and>
            (npc_state n3 = Walking \<longrightarrow>
               m' = n3\<lparr>npc_direction := atan2 (npc_homeY m - npc_y m) (npc_homeX m - npc_x m)\<rparr>)"
    by (simp add: updateNPC_def Let_def updateNPC_state_keeps)
qed

lemma demo_npc_decides_to_walk:
  "updateNPC_state demo_npc 10 0 505 0 0 = demo_npc\<lparr>npc_state := Walking, npc_stateTimer := 2\<rparr>"
  by (simp add: updateNPC_state_def demo_npc_def hypot_axis)

theorem npc_stays_near_home_witness:
  "npc_homeX demo_npc = npc_x demo_npc \<and> npc_homeY demo_npc = npc_y demo_npc \<and>
   hypot (npc_x (updateNPC_seq demo_npc [(demo_world, 10, 0, 505, 0, 0), (demo_world, 1, 7, 7, 0.5, 0.5)]) - npc_homeX demo_npc)
         (npc_y (updateNPC_seq demo_npc [(demo_world, 10, 0, 505, 0, 0), (demo_world, 1, 7, 7, 0.5, 0.5)]) - npc_homeY demo_npc) < 150 \<and>
   npc_state (updateNPC_state demo_npc 10 0 505 0 0) = Walking \<and>
   updateNPC demo_world demo_npc 10 0 505 0 0 = demo_npc\<lparr>npc_state := Walking, npc_stateTimer := 2\<rparr>"
proof -
  note t = npc_stays_near_home [of demo_world demo_rt 0 0 demo_npc
      "[(demo_world, 10, 0, 505, 0, 0), (demo_world, 1, 7, 7, 0.5, 0.5)]" demo_npc 10 0 505 0 0 demo_world]
  have home: "npc_homeX demo_npc = npc_x demo_npc \<and> npc_homeY demo_npc = npc_y demo_npc"
    by (simp add: demo_npc_def)
  from t home have near:
    "hypot (npc_x (updateNPC_seq demo_npc [(demo_world, 10, 0, 505, 0, 0), (demo_world, 1, 7, 7, 0.5, 0.5)]) - npc_homeX demo_npc)
         (npc_y (updateNPC_seq demo_npc [(demo_world, 10, 0, 505, 0, 0), (demo_world, 1, 7, 7, 0.5, 0.5)]) - npc_homeY demo_npc) < 150"
    by blast
  have far: "\<not> hypot (npc_x demo_npc + cos (npc_direction (updateNPC_state demo_npc 10 0 505 0 0)) * 30 * 10 - npc_homeX demo_npc)
      (npc_y demo_npc + sin (npc_direction (updateNPC_state demo_npc 10 0 505 0 0)) * 30 * 10 - npc_homeY demo_npc) < 150"
    by (simp add: demo_npc_decides_to_walk) (simp add: demo_npc_def hypot_axis)
  have walking: "npc_state (updateNPC_state demo_npc 10 0 505 0 0) = Walking"
    by (simp add: demo_npc_decides_to_walk)
  from t far walking have "updateNPC demo_world demo_npc 10 0 505 0 0 =
      (updateNPC_state demo_npc 10 0 505 0 0)\<lparr>npc_direction := atan2 (npc_homeY demo_npc - npc_y demo_npc) (npc_homeX demo_npc - npc_x demo_npc)\<rparr>"
    by (simp add: Let_def)
  then have "updateNPC demo_world demo_npc 10 0 505 0 0 = demo_npc\<lparr>npc_state := Walking, npc_stateTimer := 2\<rparr>"
    by (simp add: demo_npc_decides_to_walk) (simp add: demo_npc_def atan2_def)
  with home near walking show ?thesis by blast
qed

section \<open>Chunk generation\<close>

lemma gen_view_place_tree:
  "gen_view s1 = gen_view s2 \<Longrightarrow> gen_view (place_tree b roll wx wy s1) = gen_view (place_tree b roll wx wy s2)"
  by (simp add: gen_view_def place_tree_def Let_def split_beta obj_content_def)

lemma gen_view_place_rock:
  "gen_view s1 = gen_view s2 \<Longrightarrow> gen_view (place_rock b roll wx wy s1) = gen_view (place_rock b roll wx wy s2)"
  by (simp add: gen_view_def place_rock_def Let_def split_beta obj_content_def)

lemma gen_view_place_flower:
  "gen_view s1 = gen_view s2 \<Longrightarrow> gen_view (place_flower b roll wx wy s1) = gen_view (place_flower b roll wx wy s2)"
  by (simp add: gen_view_def place_flower_def Let_def split_beta obj_content_def)

lemma gen_view_place_mushroom:
  "gen_view s1 = gen_view s2 \<Longrightarrow> gen_view (place_mushroom b wx wy s1) = gen_view (place_mushroom b wx wy s2)"
  by (simp add: gen_view_def place_mushroom_def Let_def split_beta obj_content_def)

lemma gen_view_place_bush:
  "gen_view s1 = gen_view s2 \<Longrightarrow> gen_view (place_bush b wx wy s1) = gen_view (place_bush b wx wy s2)"
  by (simp add: gen_view_def place_bush_def Let_def split_beta obj_content_def)

lemma gen_view_place_cactus:
  "gen_view s1 = gen_view s2 \<Longrightarrow> gen_view (place_cactus b wx wy s1) = gen_view (place_cactus b wx wy s2)"
  by (simp add: gen_view_def place_cactus_def Let_def split_beta obj_content_def)

lemma gen_view_place_building:
  "gen_view s1 = gen_view s2 \<Longrightarrow> gen_view (place_building b wx wy s1) = gen_view (place_building b wx wy s2)"
  by (simp add: gen_view_def place_building_def generateBuilding_def Let_def split_beta)

lemma gen_view_rng: "gen_view s1 = gen_view s2 \<Longrightarrow> gs_rng s1 = gs_rng s2"
  by (simp add: gen_view_def)

lemma gen_view_set_rng: "gen_view s1 = gen_view s2 \<Longrightarrow> gen_view (s1\<lparr>gs_rng := g\<rparr>) = gen_view (s2\<lparr>gs_rng := g\<rparr>)"
  by (simp add: gen_view_def)

lemma gen_view_tile_step:
  assumes "gen_view s1 = gen_view s2"
  shows "gen_view (tile_step b wx wy s1) = gen_view (tile_step b wx wy s2)"
proof (cases "b = Water \<or> b = Beach")
  case True
  with assms show ?thesis by (simp add: tile_step_def)
next
  case False
  have r: "gs_rng s1 = gs_rng s2" using assms by (rule gen_view_rng)
  obtain roll g where n: "rng_next (gs_rng s2) = (roll, g)" by (cases "rng_next (gs_rng s2)")
  have e: "tile_step b wx wy s =
      place_building b wx wy (place_cactus b wx wy (place_bush b wx wy (place_mushroom b wx wy
        (place_flower b roll wx wy (place_rock b roll wx wy (place_tree b roll wx wy (s\<lparr>gs_rng := g\<rparr>)))))))"
    if "gs_rng s = gs_rng s2" for s
    using False that by (simp add: tile_step_def n Let_def)
  have "gen_view (s1\<lparr>gs_rng := g\<rparr>) = gen_view (s2\<lparr>gs_rng := g\<rparr>)"
    using assms by (rule gen_view_set_rng)
  then have "gen_view (place_tree b roll wx wy (s1\<lparr>gs_rng := g\<rparr>)) =
      gen_view (place_tree b roll wx wy (s2\<lparr>gs_rng := g\<rparr>))"
    by (rule gen_view_place_tree)
  then have "gen_view (place_rock b roll wx wy (place_tree b roll wx wy (s1\<lparr>gs_rng := g\<rparr>))) =
      gen_view (place_rock b roll wx wy (place_tree b roll wx wy (s2\<lparr>gs_rng := g\<rparr>)))"
    by (rule gen_view_place_rock)
  then have "gen_view (place_flower b roll wx wy (place_rock b roll wx wy (place_tree b roll wx wy (s1\<lparr>gs_rng := g\<rparr>)))) =
      gen_view (place_flower b roll wx wy (place_rock b roll wx wy (place_tree b roll wx wy (s2\<lparr>gs_rng := g\<rparr>))))"
    by (rule gen_view_place_flower)
  then show ?thesis
    unfolding e [OF r] e [OF refl]
    by (intro gen_view_place_building gen_view_place_cactus gen_view_place_bush gen_view_place_mushroom)
qed

lemma gen_view_foldl:
  assumes "\<And>x s1 s2. gen_view s1 = gen_view s2 \<Longrightarrow> gen_view (f s1 x) = gen_view (f s2 x)"
  shows "gen_view s1 = gen_view s2 \<Longrightarrow> gen_view (foldl f s1 xs) = gen_view (foldl f s2 xs)"
proof (induction xs arbitrary: s1 s2)
  case Nil
  then show ?case by simp
next
  case (Cons x xs)
  from Cons.prems have "gen_view (f s1 x) = gen_view (f s2 x)" by (rule assms)
  then have "gen_view (foldl f (f s1 x) xs) = gen_view (foldl f (f s2 x) xs)" by (rule Cons.IH)
  then show ?case by simp
qed

lemma gen_view_generate_objects:
  "gen_view s1 = gen_view s2 \<Longrightarrow>
    gen_view (generate_objects ts cx cy s1) = gen_view (generate_objects ts cx cy s2)"
  unfolding generate_objects_def Let_def
proof (rule gen_view_foldl)
  fix x :: "nat \<times> nat" and t1 t2 :: gen_state
  assume "gen_view t1 = gen_view t2"
  then show "gen_view (case x of (ty, tx) \<Rightarrow>
        tile_step (tile_biome (ts ! ty ! tx))
          (real_of_int (cx * CHUNK_SIZE * TILE_SIZE + int tx * TILE_SIZE) + real_of_int TILE_SIZE / 2)
          (real_of_int (cy * CHUNK_SIZE * TILE_SIZE + int ty * TILE_SIZE) + real_of_int TILE_SIZE / 2) t1) =
      gen_view (case x of (ty, tx) \<Rightarrow>
        tile_step (tile_biome (ts ! ty ! tx))
          (real_of_int (cx * CHUNK_SIZE * TILE_SIZE + int tx * TILE_SIZE) + real_of_int TILE_SIZE / 2)
          (real_of_int (cy * CHUNK_SIZE * TILE_SIZE + int ty * TILE_SIZE) + real_of_int TILE_SIZE / 2) t2)"
    unfolding split_beta by (rule gen_view_tile_step)
qed

lemma getBiome_cong:
  "w_noise w1 = w_noise w2 \<Longrightarrow> moistureNoise w1 = moistureNoise w2 \<Longrightarrow> getBiome w1 = getBiome w2"
  by (intro ext) (simp add: getBiome_def)

lemma getTerrainColor_cong:
  "w_noise w1 = w_noise w2 \<Longrightarrow> moistureNoise w1 = moistureNoise w2 \<Longrightarrow> getTerrainColor w1 = getTerrainColor w2"
  by (intro ext) (simp add: getTerrainColor_def getBiome_cong [of w1 w2] cong: biome.case_cong)

lemma generate_tiles_cong:
  "w_noise w1 = w_noise w2 \<Longrightarrow> moistureNoise w1 = moistureNoise w2 \<Longrightarrow>
    generate_tiles w1 cx cy = generate_tiles w2 cx cy"
  by (simp add: generate_tiles_def getBiome_cong [of w1 w2] getTerrainColor_cong [of w1 w2])

lemma generateChunk_content:
  assumes "w_seed w1 = w_seed w2" "w_noise w1 = w_noise w2" "moistureNoise w1 = moistureNoise w2"
  shows "tiles (fst (generateChunk w1 rt1 cx cy)) = tiles (fst (generateChunk w2 rt2 cx cy)) \<and>
    map obj_content (objects (fst (generateChunk w1 rt1 cx cy))) =
    map obj_content (objects (fst (generateChunk w2 rt2 cx cy)))"
proof -
  have t: "generate_tiles w1 cx cy = generate_tiles w2 cx cy"
    using assms(2,3) by (rule generate_tiles_cong)
  have "gen_view \<lparr>gs_rng = SeededRandom_new (chunkSeed (w_seed w2) cx cy), gs_objects = [],
          gs_buildings = buildings w1, gs_rt = rt1\<rparr> =
        gen_view \<lparr>gs_rng = SeededRandom_new (chunkSeed (w_seed w2) cx cy), gs_objects = [],
          gs_buildings = buildings w2, gs_rt = rt2\<rparr>"
    by (simp add: gen_view_def)
  from gen_view_generate_objects [OF this, of "generate_tiles w2 cx cy" cx cy]
  show ?thesis
    by (simp add: generateChunk_def Let_def t assms(1) gen_view_def)
qed

lemma constructed_with_new: "constructed_with s (World_new s)"
  by (simp add: constructed_with_def World_new_def)

lemma constructed_with_kept:
  "constructed_with s w \<Longrightarrow> constructed_with s (fst (snd (generateChunk w rt cx cy)))"
  "constructed_with s w \<Longrightarrow> constructed_with s (fst (snd (getChunk w rt cx cy)))"
  "constructed_with s w \<Longrightarrow> constructed_with s (fst (snd (harvestObject w rt i)))"
  "constructed_with s w \<Longrightarrow> constructed_with s (respawn w i)"
  "constructed_with s w \<Longrightarrow> constructed_with s (fst (spawnNPCs w rt px py))"
  by (simp_all add: constructed_with_def generateChunk_def getChunk_def harvestObject_def
      respawn_def spawnNPCs_def Let_def split_beta split: option.splits)

text \<open>
  C1. Two worlds constructed with the same seed, whatever has happened to them since
  (cached chunks, buildings, NPCs) and whatever the id counter and the clock of their
  processes are, generate for a chunk coordinate the same tiles (colour and biome) and
  object lists that agree, in order, on everything but the ids.
\<close>

theorem generateChunk_deterministic:
  assumes "constructed_with s w1" and "constructed_with s w2"
  shows "chunk_x (fst (generateChunk w1 rt1 cx cy)) = chunk_x (fst (generateChunk w2 rt2 cx cy)) \<and>
    chunk_y (fst (generateChunk w1 rt1 cx cy)) = chunk_y (fst (generateChunk w2 rt2 cx cy)) \<and>
    tiles (fst (generateChunk w1 rt1 cx cy)) = tiles (fst (generateChunk w2 rt2 cx cy)) \<and>
    map obj_content (objects (fst (generateChunk w1 rt1 cx cy))) =
    map obj_content (objects (fst (generateChunk w2 rt2 cx cy)))"
proof -
  from assms have "w_seed w1 = w_seed w2" "w_noise w1 = w_noise w2" "moistureNoise w1 = moistureNoise w2"
    by (simp_all add: constructed_with_def)
  from generateChunk_content [OF this, of rt1 cx cy rt2]
  have "tiles (fst (generateChunk w1 rt1 cx cy)) = tiles (fst (generateChunk w2 rt2 cx cy))"
    and "map obj_content (objects (fst (generateChunk w1 rt1 cx cy))) =
      map obj_content (objects (fst (generateChunk w2 rt2 cx cy)))" by simp_all
  moreover have "chunk_x (fst (generateChunk w1 rt1 cx cy)) = chunk_x (fst (generateChunk w2 rt2 cx cy))"
    and "chunk_y (fst (generateChunk w1 rt1 cx cy)) = chunk_y (fst (generateChunk w2 rt2 cx cy))"
    by (simp_all add: generateChunk_def Let_def)
  ultimately show ?thesis by simp
qed

theorem generateChunk_deterministic_witness:
  "constructed_with 12345 (World_new 12345) \<and> constructed_with 12345 demo_world \<and>
   tiles (fst (generateChunk (World_new 12345) demo_rt 3 (- 2))) =
   tiles (fst (generateChunk demo_world (demo_rt\<lparr>idCounter := 0, clock := \<lambda>k. 2000\<rparr>) 3 (- 2))) \<and>
   map obj_content (objects (fst (generateChunk (World_new 12345) demo_rt 3 (- 2)))) =
   map obj_content (objects (fst (generateChunk demo_world (demo_rt\<lparr>idCounter := 0, clock := \<lambda>k. 2000\<rparr>) 3 (- 2))))"
  using generateChunk_deterministic [of 12345 "World_new 12345" demo_world demo_rt 3 "- 2"
      "demo_rt\<lparr>idCounter := 0, clock := \<lambda>k. 2000\<rparr>"]
  by (simp add: constructed_with_def World_new_def demo_world_def)















section \<open>Bounds of the noise\<close>

lemma fade_minus_id: "fade t - t = t * (2 * t - 1) * (t - 1) * (3 * t * t - 3 * t - 1)"
  by (simp add: fade_def algebra_simps)

lemma fade_le_id:
  assumes "0 \<le> t" "t \<le> 1 / 2"
  shows "fade t \<le> t"
proof -
  have a: "t * (2 * t - 1) \<le> 0" using assms by (intro mult_nonneg_nonpos) simp_all
  have b: "0 \<le> t * (2 * t - 1) * (t - 1)" using a assms by (intro mult_nonpos_nonpos) simp_all
  have "3 * t * t - 3 * t - 1 = 3 * (t * (t - 1)) - 1" by (simp add: algebra_simps)
  moreover have "t * (t - 1) \<le> 0" using assms by (intro mult_nonneg_nonpos) simp_all
  ultimately have c: "3 * t * t - 3 * t - 1 \<le> 0" by simp
  have "t * (2 * t - 1) * (t - 1) * (3 * t * t - 3 * t - 1) \<le> 0"
    using b c by (rule mult_nonneg_nonpos)
  then show ?thesis using fade_minus_id [of t] by simp
qed

lemma fade_ge_id:
  assumes "1 / 2 \<le> t" "t \<le> 1"
  shows "t \<le> fade t"
proof -
  have a: "0 \<le> t * (2 * t - 1)" using assms by (intro mult_nonneg_nonneg) simp_all
  have b: "t * (2 * t - 1) * (t - 1) \<le> 0" using a assms by (intro mult_nonneg_nonpos) simp_all
  have "3 * t * t - 3 * t - 1 = 3 * (t * (t - 1)) - 1" by (simp add: algebra_simps)
  moreover have "t * (t - 1) \<le> 0" using assms by (intro mult_nonneg_nonpos) simp_all
  ultimately have c: "3 * t * t - 3 * t - 1 \<le> 0" by simp
  have "0 \<le> t * (2 * t - 1) * (t - 1) * (3 * t * t - 3 * t - 1)"
    using b c by (rule mult_nonpos_nonpos)
  then show ?thesis using fade_minus_id [of t] by simp
qed

lemma fade_nonneg:
  assumes "0 \<le> t"
  shows "0 \<le> fade t"
proof -
  have "t * (t * 6 - 15) + 10 = 6 * ((t - 5 / 4) * (t - 5 / 4)) + 5 / 8" by (simp add: algebra_simps)
  moreover have "0 \<le> (t - 5 / 4) * (t - 5 / 4)" by simp
  ultimately have "0 \<le> t * (t * 6 - 15) + 10" by simp
  then show ?thesis unfolding fade_def using assms by (intro mult_nonneg_nonneg) simp_all
qed

lemma fade_unit:
  assumes "0 \<le> t" "t \<le> 1"
  shows "0 \<le> fade t \<and> fade t \<le> 1"
proof (cases "t \<le> 1 / 2")
  case True
  with fade_le_id [of t] fade_nonneg [of t] assms show ?thesis by simp
next
  case False
  have "1 - fade t = (1 - t) * (1 - t) * (1 - t) * (6 * t * t + 3 * t + 1)"
    by (simp add: fade_def algebra_simps)
  moreover have "0 \<le> (1 - t) * (1 - t) * (1 - t) * (6 * t * t + 3 * t + 1)"
    using assms by (intro mult_nonneg_nonneg add_nonneg_nonneg) simp_all
  ultimately have "0 \<le> 1 - fade t" by simp
  then show ?thesis using fade_nonneg [of t] assms by simp
qed

lemma blend_quarter:
  assumes "0 \<le> t" "t \<le> 1"
  shows "(1 - fade t) * (t * t) + fade t * ((t - 1) * (t - 1)) \<le> 1 / 4"
proof (cases "t \<le> 1 / 2")
  case True
  have "(1 - fade t) * (t * t) + fade t * ((t - 1) * (t - 1)) = t * t + fade t * (1 - 2 * t)"
    by (simp add: algebra_simps)
  also have "\<dots> \<le> t * t + t * (1 - 2 * t)"
    using fade_le_id [OF assms(1) True] True by (intro add_left_mono mult_right_mono) simp_all
  also have "\<dots> = 1 / 4 - (t - 1 / 2) * (t - 1 / 2)" by (simp add: algebra_simps)
  also have "\<dots> \<le> 1 / 4" by simp
  finally show ?thesis .
next
  case False
  then have h: "1 / 2 \<le> t" by simp
  have "(1 - fade t) * (t * t) + fade t * ((t - 1) * (t - 1)) =
      (1 - t) * (1 - t) + (1 - fade t) * (2 * t - 1)"
    by (simp add: algebra_simps)
  also have "\<dots> \<le> (1 - t) * (1 - t) + (1 - t) * (2 * t - 1)"
    using fade_ge_id [OF h assms(2)] h by (intro add_left_mono mult_right_mono) simp_all
  also have "\<dots> = 1 / 4 - (t - 1 / 2) * (t - 1 / 2)" by (simp add: algebra_simps)
  also have "\<dots> \<le> 1 / 4" by simp
  finally show ?thesis .
qed

lemma dot_square:
  assumes "gx g * gx g + gy g * gy g = 1"
  shows "dot g a b * dot g a b \<le> a * a + b * b"
proof -
  have "(gx g * gx g + gy g * gy g) * (a * a + b * b) - dot g a b * dot g a b =
      (gx g * b - gy g * a) * (gx g * b - gy g * a)"
    by (simp add: dot_def algebra_simps)
  then have "a * a + b * b - dot g a b * dot g a b =
      (gx g * b - gy g * a) * (gx g * b - gy g * a)"
    unfolding assms by simp
  moreover have "0 \<le> (gx g * b - gy g * a) * (gx g * b - gy g * a)" by simp
  ultimately show ?thesis by linarith
qed

lemma lerp_square:
  assumes "0 \<le> t" "t \<le> 1"
  shows "lerp p q t * lerp p q t \<le> (1 - t) * (p * p) + t * (q * q)"
proof -
  have "(1 - t) * (p * p) + t * (q * q) - lerp p q t * lerp p q t = t * (1 - t) * ((p - q) * (p - q))"
    by (simp add: lerp_def algebra_simps)
  moreover have "0 \<le> t * (1 - t) * ((p - q) * (p - q))"
  proof (rule mult_nonneg_nonneg)
    show "0 \<le> t * (1 - t)" using assms by (intro mult_nonneg_nonneg) simp_all
    show "0 \<le> (p - q) * (p - q)" by simp
  qed
  ultimately show ?thesis by linarith
qed

lemma noise_square_half:
  fixes a b :: real
  assumes a: "0 \<le> a" "a \<le> 1" and b: "0 \<le> b" "b \<le> 1"
    and g: "gx g1 * gx g1 + gy g1 * gy g1 = 1" "gx g2 * gx g2 + gy g2 * gy g2 = 1"
      "gx g3 * gx g3 + gy g3 * gy g3 = 1" "gx g4 * gx g4 + gy g4 * gy g4 = 1"
  defines "x1 \<equiv> lerp (dot g1 a b) (dot g2 (a - 1) b) (fade a)"
    and "x2 \<equiv> lerp (dot g3 a (b - 1)) (dot g4 (a - 1) (b - 1)) (fade a)"
  shows "lerp x1 x2 (fade b) * lerp x1 x2 (fade b) \<le> 1 / 2"
proof -
  note ua = fade_unit [OF a] and ub = fade_unit [OF b]
  have u0: "0 \<le> 1 - fade a" and v0: "0 \<le> 1 - fade b" using ua ub by simp_all
  have "x1 * x1 \<le> (1 - fade a) * (dot g1 a b * dot g1 a b) + fade a * (dot g2 (a - 1) b * dot g2 (a - 1) b)"
    unfolding x1_def using ua by (intro lerp_square) simp_all
  also have "\<dots> \<le> (1 - fade a) * (a * a + b * b) + fade a * ((a - 1) * (a - 1) + b * b)"
    using u0 ua dot_square [OF g(1), of a b] dot_square [OF g(2), of "a - 1" b]
    by (intro add_mono mult_left_mono) simp_all
  also have "\<dots> = ((1 - fade a) * (a * a) + fade a * ((a - 1) * (a - 1))) + b * b"
    by (simp add: algebra_simps)
  finally have x1: "x1 * x1 \<le> ((1 - fade a) * (a * a) + fade a * ((a - 1) * (a - 1))) + b * b" .
  have "x2 * x2 \<le> (1 - fade a) * (dot g3 a (b - 1) * dot g3 a (b - 1)) +
      fade a * (dot g4 (a - 1) (b - 1) * dot g4 (a - 1) (b - 1))"
    unfolding x2_def using ua by (intro lerp_square) simp_all
  also have "\<dots> \<le> (1 - fade a) * (a * a + (b - 1) * (b - 1)) + fade a * ((a - 1) * (a - 1) + (b - 1) * (b - 1))"
    using u0 ua dot_square [OF g(3), of a "b - 1"] dot_square [OF g(4), of "a - 1" "b - 1"]
    by (intro add_mono mult_left_mono) simp_all
  also have "\<dots> = ((1 - fade a) * (a * a) + fade a * ((a - 1) * (a - 1))) + (b - 1) * (b - 1)"
    by (simp add: algebra_simps)
  finally have x2: "x2 * x2 \<le> ((1 - fade a) * (a * a) + fade a * ((a - 1) * (a - 1))) + (b - 1) * (b - 1)" .
  define ha where "ha = (1 - fade a) * (a * a) + fade a * ((a - 1) * (a - 1))"
  have "lerp x1 x2 (fade b) * lerp x1 x2 (fade b) \<le> (1 - fade b) * (x1 * x1) + fade b * (x2 * x2)"
    using ub by (intro lerp_square) simp_all
  also have "\<dots> \<le> (1 - fade b) * (ha + b * b) + fade b * (ha + (b - 1) * (b - 1))"
    using v0 ub x1 x2 unfolding ha_def by (intro add_mono mult_left_mono) simp_all
  also have "\<dots> = ha + ((1 - fade b) * (b * b) + fade b * ((b - 1) * (b - 1)))"
    by (simp add: algebra_simps)
  also have "\<dots> \<le> 1 / 4 + 1 / 4"
    unfolding ha_def using blend_quarter [OF a] blend_quarter [OF b] by (intro add_mono)
  finally show ?thesis by simp
qed

lemma and255_less: "and255 e < 256"
proof (cases e)
  case None
  then show ?thesis by (simp add: and255_def)
next
  case (Some v)
  have "v AND 255 \<le> 255" by (rule AND_upper2) simp
  then have "nat (v AND 255) < 256" by arith
  with Some show ?thesis by (simp add: and255_def)
qed

lemma buildGradients_loop_unit:
  "length (fst (buildGradients_loop n g)) = n \<and>
   (\<forall>gr \<in> set (fst (buildGradients_loop n g)). gx gr * gx gr + gy gr * gy gr = 1)"
  by (induction n arbitrary: g) (auto simp: Let_def split_beta sin_cos_squared_add3)

lemma unit_gradients_new: "unit_gradients (SimplexNoise_new s)"
  using buildGradients_loop_unit [of 256 "snd (buildPermutation (SeededRandom_new s))"]
  by (simp add: unit_gradients_def SimplexNoise_new_def buildGradients_def split_beta)

lemma unit_gradients_at:
  "unit_gradients nf \<Longrightarrow> gx (gradients nf ! and255 e) * gx (gradients nf ! and255 e) +
     gy (gradients nf ! and255 e) * gy (gradients nf ! and255 e) = 1"
  using and255_less [of e] by (simp add: unit_gradients_def)

lemma noise2D_square:
  assumes "unit_gradients nf"
  shows "noise2D nf x y * noise2D nf x y \<le> 1 / 2"
proof -
  have x: "0 \<le> x - real_of_int \<lfloor>x\<rfloor>" "x - real_of_int \<lfloor>x\<rfloor> \<le> 1"
    and y: "0 \<le> y - real_of_int \<lfloor>y\<rfloor>" "y - real_of_int \<lfloor>y\<rfloor> \<le> 1"
    by linarith+
  show ?thesis
    unfolding noise2D_def Let_def
    by (rule noise_square_half [OF x y]) (rule unit_gradients_at [OF assms])+
qed

lemma abs_le_one_of_square:
  fixes v :: real
  assumes "v * v \<le> 1 / 2"
  shows "\<bar>v\<bar> \<le> 1"
proof (rule ccontr)
  assume "\<not> \<bar>v\<bar> \<le> 1"
  then have "1 < \<bar>v\<bar>" by simp
  then have "1 * 1 < \<bar>v\<bar> * \<bar>v\<bar>" by (intro mult_strict_mono) simp_all
  then have "1 < v * v" by simp
  with assms show False by simp
qed

lemma noise2D_abs: "unit_gradients nf \<Longrightarrow> \<bar>noise2D nf x y\<bar> \<le> 1"
  by (rule abs_le_one_of_square) (rule noise2D_square)

lemma fbm_loop_bound:
  assumes "unit_gradients nf" and "0 < persistence"
  shows "0 < amplitude \<Longrightarrow> \<bar>v\<bar> \<le> mx \<Longrightarrow>
    (case fbm_loop nf x y lacunarity persistence n (v, amplitude, frequency, mx) of
       (v', mx') \<Rightarrow> \<bar>v'\<bar> \<le> mx' \<and> (0 < n \<longrightarrow> 0 < mx'))"
proof (induction n arbitrary: v amplitude frequency mx)
  case 0
  then show ?case by simp
next
  case (Suc n)
  let ?nz = "noise2D nf (x * frequency) (y * frequency)"
  have "\<bar>amplitude * ?nz\<bar> \<le> amplitude * 1"
    unfolding abs_mult using Suc.prems(1) noise2D_abs [OF assms(1)]
    by (intro mult_mono) simp_all
  with Suc.prems(2) have b: "\<bar>v + amplitude * ?nz\<bar> \<le> mx + amplitude" by linarith
  have a: "0 < amplitude * persistence" using Suc.prems(1) assms(2) by simp
  have pos: "0 < mx + amplitude" using Suc.prems by linarith
  obtain v' mx' where r: "fbm_loop nf x y lacunarity persistence n
      (v + amplitude * ?nz, amplitude * persistence, frequency * lacunarity, mx + amplitude) = (v', mx')"
    by (cases "fbm_loop nf x y lacunarity persistence n
      (v + amplitude * ?nz, amplitude * persistence, frequency * lacunarity, mx + amplitude)")
  from Suc.IH [OF a b, where frequency = "frequency * lacunarity"] r
  have ih: "\<bar>v'\<bar> \<le> mx'" "0 < n \<longrightarrow> 0 < mx'" by simp_all
  have "0 < mx'"
  proof (cases n)
    case 0
    with r pos show ?thesis by simp
  next
    case (Suc k)
    with ih(2) show ?thesis by simp
  qed
  with ih(1) r show ?case by simp
qed

lemma fbm_abs:
  assumes "unit_gradients nf" and "0 < persistence" and "0 < octaves"
  shows "\<bar>fbm nf x y octaves lacunarity persistence\<bar> \<le> 1"
proof -
  obtain v mx where r: "fbm_loop nf x y lacunarity persistence octaves (0, 1, 1, 0) = (v, mx)"
    by (cases "fbm_loop nf x y lacunarity persistence octaves (0, 1, 1, 0)")
  from fbm_loop_bound [OF assms(1,2), where amplitude = 1 and v = 0 and mx = 0 and x = x and y = y
      and lacunarity = lacunarity and n = octaves and frequency = 1] r assms(3)
  have "\<bar>v\<bar> \<le> mx" "0 < mx" by simp_all
  then have "\<bar>v / mx\<bar> \<le> 1" by simp
  with r show ?thesis by (simp add: fbm_def)
qed

text \<open>
  C8. For the noise field of any seed and all real \<open>x\<close>, \<open>y\<close>: \<open>noise2D\<close> lies in
  \<open>[-1.01, 1.01]\<close> (its square is at most \<open>1/2\<close>), and so does \<open>fbm\<close> with
  lacunarity 2, persistence 0.5 and 1 to 8 octaves, the sum of the octaves being
  divided by the sum of their amplitudes.
\<close>

theorem noise_bounds:
  "\<bar>noise2D (SimplexNoise_new s) x y\<bar> \<le> 1.01 \<and>
   noise2D (SimplexNoise_new s) x y * noise2D (SimplexNoise_new s) x y \<le> 1 / 2 \<and>
   (1 \<le> octaves \<and> octaves \<le> 8 \<longrightarrow> \<bar>fbm (SimplexNoise_new s) x y octaves 2 0.5\<bar> \<le> 1.01)"
proof (intro conjI impI)
  from noise2D_abs [OF unit_gradients_new [of s], where x = x and y = y]
  show "\<bar>noise2D (SimplexNoise_new s) x y\<bar> \<le> 1.01" by simp
next
  show "noise2D (SimplexNoise_new s) x y * noise2D (SimplexNoise_new s) x y \<le> 1 / 2"
    by (rule noise2D_square) (rule unit_gradients_new)
next
  assume "1 \<le> octaves \<and> octaves \<le> 8"
  then have "0 < octaves" by simp
  from fbm_abs [OF unit_gradients_new [of s] _ this, where persistence = "0.5" and x = x and y = y
      and lacunarity = 2]
  show "\<bar>fbm (SimplexNoise_new s) x y octaves 2 0.5\<bar> \<le> 1.01" by simp
qed

theorem noise_bounds_witness:
  "(1::nat) \<le> 4 \<and> (4::nat) \<le> 8 \<and>
   \<bar>fbm (SimplexNoise_new 12345) (3 / 10) (7 / 10) 4 2 0.5\<bar> \<le> 1.01 \<and>
   \<bar>noise2D (SimplexNoise_new 12345) (3 / 10) (7 / 10)\<bar> \<le> 1.01"
  using noise_bounds [where s = 12345 and x = "3 / 10" and y = "7 / 10" and octaves = 4] by simp

section \<open>The spatial queries write nothing\<close>

lemma copy_near_spec:
  assumes "set as \<subseteq> {..<length h}"
  shows "copy_near f as h =
    ([length h ..< length h + length (List.map_filter f (map (\<lambda>a. h ! a) as))],
     h @ List.map_filter f (map (\<lambda>a. h ! a) as))"
  using assms
proof (induction as arbitrary: h)
  case Nil
  then show ?case by simp
next
  case (Cons a as)
  show ?case
  proof (cases "f (h ! a)")
    case None
    with Cons show ?thesis by simp
  next
    case (Some c)
    have sub: "set as \<subseteq> {..<length (h @ [c])}" using Cons.prems by auto
    have same: "map (\<lambda>a. (h @ [c]) ! a) as = map (\<lambda>a. h ! a) as"
      using Cons.prems by (auto simp: nth_append)
    show ?thesis
      using Some Cons.IH [OF sub]
      by (simp add: alloc_def same upt_conv_Cons del: upt_Suc)
  qed
qed

lemma holds_array_extend:
  assumes "holds_array h a cs" and "length h \<le> length h'" and "\<forall>i < length h. h' ! i = h ! i"
  shows "holds_array h' a cs"
proof -
  from assms(1) have a: "a < length h" and sub: "set (array_at h a) \<subseteq> {..<length h}"
    and arr: "h ! a = ArrayCell (array_at h a)" and cs: "map (\<lambda>e. h ! e) (array_at h a) = cs"
    by (simp_all add: holds_array_def)
  from a assms(3) have same: "h' ! a = h ! a" by simp
  then have at: "array_at h' a = array_at h a" by (simp add: array_at_def)
  have "map (\<lambda>e. h' ! e) (array_at h a) = map (\<lambda>e. h ! e) (array_at h a)"
    using sub assms(3) by (intro map_cong) auto
  with a sub arr cs at same assms(2) show ?thesis
    by (auto simp: holds_array_def)
qed

lemma represents_extend:
  assumes "represents st w" and "untouched st st'"
  shows "represents st' w"
proof -
  from assms(2) have len: "length (heap st) \<le> length (heap st')"
    and same: "\<forall>i < length (heap st). heap st' ! i = heap st ! i"
    and fields: "st_seed st' = st_seed st" "st_chunks st' = st_chunks st" "st_npcs st' = st_npcs st"
      "st_buildings st' = st_buildings st"
    by (simp_all add: untouched_def)
  note ext = holds_array_extend [OF _ len same]
  from assms(1) have "list_all2 (\<lambda>(k, a) (k', c). k = k' \<and> holds_array (heap st) a (map ObjectCell (objects c)))
       (st_chunks st) (chunks w)" by (simp add: represents_def)
  then have "list_all2 (\<lambda>(k, a) (k', c). k = k' \<and> holds_array (heap st') a (map ObjectCell (objects c)))
       (st_chunks st) (chunks w)"
    by (rule list_all2_mono) (auto intro: ext)
  with assms(1) fields show ?thesis
    by (auto simp: represents_def intro: ext)
qed

lemma untouched_update:
  assumes "untouched st st'" and "length (heap st) \<le> a"
  shows "untouched st (st'\<lparr>heap := (heap st')[a := c]\<rparr>)"
  using assms by (auto simp: untouched_def)

lemma map_sort_key: "map g (sort_key (\<lambda>x. f (g x)) xs) = sort_key f (map g xs)"
proof (induction xs)
  case Nil
  then show ?case by simp
next
  case (Cons x xs)
  have ins: "map g (insort_key (\<lambda>x. f (g x)) x ys) = insort_key f (g x) (map g ys)" for ys
    by (induction ys) simp_all
  from Cons show ?case by (simp add: ins)
qed

lemma insort_key_cong_set:
  "f x = g x \<Longrightarrow> (\<And>z. z \<in> set ys \<Longrightarrow> f z = g z) \<Longrightarrow> insort_key f x ys = insort_key g x ys"
  by (induction ys) auto

lemma sort_key_cong_set: "(\<And>x. x \<in> set xs \<Longrightarrow> f x = g x) \<Longrightarrow> sort_key f xs = sort_key g xs"
proof (induction xs)
  case Nil
  then show ?case by simp
next
  case (Cons x xs)
  have "sort_key f xs = sort_key g xs" using Cons by simp
  moreover have "insort_key f x (sort_key g xs) = insort_key g x (sort_key g xs)"
    by (rule insort_key_cong_set) (use Cons.prems in auto)
  ultimately show ?case by simp
qed

lemma read_fresh: "map (\<lambda>a. (h @ new) ! a) [length h ..< length h + length new] = new"
  by (rule nth_equalityI) (simp_all add: nth_append)

lemma map_filter_sort_spec:
  assumes src: "holds_array h src cs"
    and run: "map_filter_sort f radius src h = (res, h4)"
  defines "new \<equiv> List.map_filter f cs"
  shows "res = length h + length new + 1 \<and> length h4 = length h + length new + 2 \<and>
    (\<forall>a < length h. h4 ! a = h ! a) \<and>
    (\<exists>as. h4 ! res = ArrayCell as \<and> set as \<subseteq> {length h ..< length h + length new} \<and>
       map (\<lambda>a. h4 ! a) as = sort_key cell_distance (filter (\<lambda>c. cell_distance c \<le> radius) new))"
proof -
  define copies where "copies = [length h ..< length h + length new]"
  define h1 where "h1 = h @ new"
  define h2 where "h2 = h1 @ [ArrayCell copies]"
  define kept where "kept = filter (\<lambda>a. distance_at h2 a \<le> radius) copies"
  define h3 where "h3 = h2 @ [ArrayCell kept]"
  define sorted where "sorted = sort_key (distance_at h3) kept"
  from src have sub: "set (array_at h src) \<subseteq> {..<length h}"
    and cs: "map (\<lambda>e. h ! e) (array_at h src) = cs" by (simp_all add: holds_array_def)
  have copy: "copy_near f (array_at h src) h = (copies, h1)"
    by (simp add: copy_near_spec [OF sub] cs new_def copies_def h1_def)
  have at2: "array_at h2 (length h1) = copies" by (simp add: array_at_def h2_def)
  have at3: "array_at h3 (length h2) = kept" by (simp add: array_at_def h3_def)
  have "map_filter_sort f radius src h = (length h2, h3[length h2 := ArrayCell sorted])"
    unfolding map_filter_sort_def copy alloc_def Let_def prod.case
    unfolding h2_def [symmetric] at2
    unfolding kept_def [symmetric] h3_def [symmetric] at3 sorted_def [symmetric]
    by (rule refl)
  with run have res: "res = length h2" and h4: "h4 = h2 @ [ArrayCell sorted]"
    by (simp_all add: h3_def)
  have in1: "a < length h1" if "a \<in> set copies" for a
    using that by (simp add: copies_def h1_def)
  have r2: "h2 ! a = h1 ! a" and r3: "h3 ! a = h1 ! a" and r4: "h4 ! a = h1 ! a"
    if "a \<in> set copies" for a
    using in1 [OF that] by (simp_all add: h2_def h3_def h4 nth_append)
  have kept': "kept = filter (\<lambda>a. cell_distance (h1 ! a) \<le> radius) copies"
    unfolding kept_def by (rule filter_cong) (simp_all add: distance_at_def r2)
  then have ksub: "set kept \<subseteq> set copies" by auto
  have sorted': "sorted = sort_key (\<lambda>a. cell_distance (h1 ! a)) kept"
    unfolding sorted_def using ksub by (intro sort_key_cong_set) (auto simp: distance_at_def r3)
  have ssub: "set sorted \<subseteq> set copies" using ksub by (simp add: sorted_def)
  have "map (\<lambda>a. h4 ! a) sorted = map (\<lambda>a. h1 ! a) sorted"
    using ssub by (intro map_cong) (auto simp: r4)
  also have "\<dots> = sort_key cell_distance (map (\<lambda>a. h1 ! a) kept)"
    unfolding sorted' by (rule map_sort_key)
  also have "map (\<lambda>a. h1 ! a) kept =
      filter (\<lambda>c. cell_distance c \<le> radius) (map (\<lambda>a. h1 ! a) copies)"
    by (simp add: kept' filter_map comp_def)
  also have "map (\<lambda>a. h1 ! a) copies = new"
    unfolding h1_def copies_def by (rule read_fresh)
  finally have vals: "map (\<lambda>a. h4 ! a) sorted =
      sort_key cell_distance (filter (\<lambda>c. cell_distance c \<le> radius) new)" .
  have "h4 ! res = ArrayCell sorted" by (simp add: res h4)
  moreover have "set sorted \<subseteq> {length h ..< length h + length new}"
    using ssub by (simp add: copies_def)
  moreover have "res = length h + length new + 1" by (simp add: res h2_def h1_def)
  moreover have "length h4 = length h + length new + 2" by (simp add: h4 h2_def h1_def)
  moreover have "\<forall>a < length h. h4 ! a = h ! a" by (simp add: h4 h2_def h1_def nth_append)
  ultimately show ?thesis using vals by blast
qed

lemma npc_copies:
  "List.map_filter (npc_copy x y) (map NpcCell ns) =
    map NpcNear (map (\<lambda>n. near_npc n (hypot (npc_x n - x) (npc_y n - y))) ns)"
  by (induction ns) (simp_all add: npc_copy_def)

lemma building_copies:
  "List.map_filter (building_copy x y) (map BuildingCell bs) =
    map BuildingNear (map (\<lambda>b. near_building b
      (hypot (b_x b + b_width b / 2 - x) (b_y b + b_height b / 2 - y))) bs)"
  by (induction bs) (simp_all add: building_copy_def)

lemma object_copies:
  "List.map_filter (object_copy x y radius) (map ObjectCell obs) =
    map ObjectNear (map (\<lambda>ob. near_object ob (hypot (obj_x ob - x) (obj_y ob - y)))
      (filter (\<lambda>ob. hypot (obj_x ob - x) (obj_y ob - y) \<le> radius) obs))"
  unfolding object_copy_def Let_def by (induction obs) simp_all

lemma sort_filter_cells:
  assumes "\<And>e. cell_distance (C e) = d e"
  shows "sort_key cell_distance (filter (\<lambda>c. cell_distance c \<le> radius) (map C es)) =
    map C (sort_key d (filter (\<lambda>e. d e \<le> radius) es))"
proof -
  have "filter (\<lambda>c. cell_distance c \<le> radius) (map C es) = map C (filter (\<lambda>e. d e \<le> radius) es)"
    by (simp add: filter_map comp_def assms)
  moreover have "sort_key cell_distance (map C zs) = map C (sort_key d zs)" for zs
    using map_sort_key [of C cell_distance zs] by (simp add: assms)
  ultimately show ?thesis by simp
qed

lemma map_filter_sort_result:
  assumes src: "holds_array (heap st) src cs"
    and run: "map_filter_sort f radius src (heap st) = (res, h4)"
    and fields: "st_seed st' = st_seed st" "st_chunks st' = st_chunks st" "st_npcs st' = st_npcs st"
      "st_buildings st' = st_buildings st" "heap st' = h4"
    and vals: "sort_key cell_distance (filter (\<lambda>c. cell_distance c \<le> radius) (List.map_filter f cs)) = vs"
  shows "untouched st st' \<and> fresh_result st st' res vs"
proof -
  from map_filter_sort_spec [OF src run] obtain as
    where res: "res = length (heap st) + length (List.map_filter f cs) + 1"
      and len: "length h4 = length (heap st) + length (List.map_filter f cs) + 2"
      and same: "\<forall>a < length (heap st). h4 ! a = heap st ! a"
      and arr: "h4 ! res = ArrayCell as"
      and sub: "set as \<subseteq> {length (heap st) ..< length (heap st) + length (List.map_filter f cs)}"
      and rd: "map (\<lambda>a. h4 ! a) as = vs"
    unfolding vals by blast
  have "untouched st st'"
    using fields same len by (simp add: untouched_def)
  moreover have "\<forall>a \<in> set as. length (heap st) \<le> a \<and> a < length (heap st')"
    using sub len fields(5) by auto
  then have "fresh_result st st' res vs"
    unfolding fresh_result_def using res len arr rd fields(5) by auto
  ultimately show ?thesis by simp
qed

lemma getNPCsNear_store_spec:
  assumes "represents st w" and "getNPCsNear_store st x y radius = (res, st')"
  shows "untouched st st' \<and> fresh_result st st' res (map NpcNear (getNPCsNear w x y radius))"
proof -
  obtain r h4 where run: "map_filter_sort (npc_copy x y) radius (st_npcs st) (heap st) = (r, h4)"
    by (cases "map_filter_sort (npc_copy x y) radius (st_npcs st) (heap st)")
  with assms(2) have st': "st' = st\<lparr>heap := h4\<rparr>" and res: "res = r"
    by (simp_all add: getNPCsNear_store_def)
  from assms(1) have src: "holds_array (heap st) (st_npcs st) (map NpcCell (npcs w))"
    by (simp add: represents_def)
  have vals: "sort_key cell_distance (filter (\<lambda>c. cell_distance c \<le> radius)
        (List.map_filter (npc_copy x y) (map NpcCell (npcs w)))) =
      map NpcNear (getNPCsNear w x y radius)"
    unfolding npc_copies getNPCsNear_def
    by (rule sort_filter_cells) (simp add: cell_distance_def)
  show ?thesis
    unfolding res by (rule map_filter_sort_result [OF src run _ _ _ _ _ vals]) (simp_all add: st')
qed

lemma getBuildingsNear_store_spec:
  assumes "represents st w" and "getBuildingsNear_store st x y radius = (res, st')"
  shows "untouched st st' \<and> fresh_result st st' res (map BuildingNear (getBuildingsNear w x y radius))"
proof -
  obtain r h4 where run: "map_filter_sort (building_copy x y) radius (st_buildings st) (heap st) = (r, h4)"
    by (cases "map_filter_sort (building_copy x y) radius (st_buildings st) (heap st)")
  with assms(2) have st': "st' = st\<lparr>heap := h4\<rparr>" and res: "res = r"
    by (simp_all add: getBuildingsNear_store_def)
  from assms(1) have src: "holds_array (heap st) (st_buildings st) (map BuildingCell (buildings w))"
    by (simp add: represents_def)
  have vals: "sort_key cell_distance (filter (\<lambda>c. cell_distance c \<le> radius)
        (List.map_filter (building_copy x y) (map BuildingCell (buildings w)))) =
      map BuildingNear (getBuildingsNear w x y radius)"
    unfolding building_copies getBuildingsNear_def
    by (rule sort_filter_cells) (simp add: cell_distance_def)
  show ?thesis
    unfolding res by (rule map_filter_sort_result [OF src run _ _ _ _ _ vals]) (simp_all add: st')
qed

lemma holds_array_append: "holds_array h a cs \<Longrightarrow> holds_array (h @ extra) a cs"
  by (rule holds_array_extend) (auto simp: nth_append)

lemma upt_join: "[i ..< i + m] @ [i + m ..< i + m + n] = [i ..< i + (m + n)]" for i m n :: nat
  by (metis add.assoc le_add1 upt_add_eq_append)

lemma chunk_lookup:
  assumes "list_all2 (\<lambda>(k, a) (k', c). k = k' \<and> R a c) scs cs"
  shows "case map_of scs key of None \<Rightarrow> map_of cs key = None
         | Some a \<Rightarrow> \<exists>c. map_of cs key = Some c \<and> R a c"
  using assms by (induction scs cs rule: list_all2_induct) (auto split: option.splits)

lemma gather_objects_spec:
  assumes "\<And>key. case map_of (st_chunks st) key of None \<Rightarrow> map_of (chunks w) key = None
      | Some a \<Rightarrow> \<exists>c. map_of (chunks w) key = Some c \<and> holds_array h a (map ObjectCell (objects c))"
  shows "gather_objects st x y radius keys (elems, h) =
    (elems @ [length h ..< length h + length (concat (map (chunk_near w x y radius) keys))],
     h @ map ObjectNear (concat (map (chunk_near w x y radius) keys)))"
  using assms
proof (induction keys arbitrary: elems h)
  case Nil
  then show ?case by simp
next
  case (Cons key keys)
  show ?case
  proof (cases "map_of (st_chunks st) key")
    case None
    with Cons.prems [of key] have "chunk_near w x y radius key = []"
      by (simp add: chunk_near_def)
    with None Cons.IH [OF Cons.prems, of elems] show ?thesis by simp
  next
    case (Some a)
    with Cons.prems [of key] obtain c where c: "map_of (chunks w) key = Some c"
      and arr: "holds_array h a (map ObjectCell (objects c))" by auto
    from arr have sub: "set (array_at h a) \<subseteq> {..<length h}"
      and cs: "map (\<lambda>e. h ! e) (array_at h a) = map ObjectCell (objects c)"
      by (simp_all add: holds_array_def)
    define new where "new = map ObjectNear (chunk_near w x y radius key)"
    have copy: "copy_near (object_copy x y radius) (array_at h a) h =
        ([length h ..< length h + length new], h @ new)"
      by (simp add: copy_near_spec [OF sub] cs object_copies new_def chunk_near_def c)
    have ext: "case map_of (st_chunks st) k of None \<Rightarrow> map_of (chunks w) k = None
        | Some a \<Rightarrow> \<exists>c. map_of (chunks w) k = Some c \<and> holds_array (h @ new) a (map ObjectCell (objects c))"
      for k
      using Cons.prems [of k]
      by (auto split: option.splits intro: holds_array_append)
    have step: "gather_objects st x y radius (key # keys) (elems, h) =
        gather_objects st x y radius keys (elems @ [length h ..< length h + length new], h @ new)"
      by (simp add: Some copy)
    show ?thesis
      unfolding step Cons.IH [OF ext]
      by (simp add: new_def upt_join)
  qed
qed

lemma getObjectsNear_store_spec:
  assumes "represents st w" and "getObjectsNear_store st x y radius = (res, st')"
  shows "untouched st st' \<and> fresh_result st st' res (map ObjectNear (getObjectsNear w x y radius))"
proof -
  define h0 where "h0 = heap st @ [ArrayCell []]"
  define new where "new = map ObjectNear (objects_in_range w x y radius)"
  define elems where "elems = [length h0 ..< length h0 + length new]"
  define h1 where "h1 = h0 @ new"
  define sorted where "sorted = sort_key (distance_at h1) elems"
  have range: "concat (map (chunk_near w x y radius) (near_chunks x y)) = objects_in_range w x y radius"
    by (simp add: objects_in_range_def chunk_near_def [abs_def])
  from assms(1) have "list_all2 (\<lambda>(k, a) (k', c). k = k' \<and> holds_array (heap st) a (map ObjectCell (objects c)))
       (st_chunks st) (chunks w)" by (simp add: represents_def)
  from chunk_lookup [OF this]
  have base: "case map_of (st_chunks st) key of None \<Rightarrow> map_of (chunks w) key = None
      | Some a \<Rightarrow> \<exists>c. map_of (chunks w) key = Some c \<and> holds_array (heap st) a (map ObjectCell (objects c))"
    for key .
  have ext: "case map_of (st_chunks st) key of None \<Rightarrow> map_of (chunks w) key = None
      | Some a \<Rightarrow> \<exists>c. map_of (chunks w) key = Some c \<and> holds_array h0 a (map ObjectCell (objects c))"
    for key
    using base [of key]
    unfolding h0_def by (auto split: option.splits intro: holds_array_append)
  have gather: "gather_objects st x y radius (near_chunks x y) ([], h0) = (elems, h1)"
    by (simp add: gather_objects_spec [OF ext] range elems_def h1_def new_def)
  have "getObjectsNear_store st x y radius =
      (length (heap st), st\<lparr>heap := h1[length (heap st) := ArrayCell sorted]\<rparr>)"
    unfolding getObjectsNear_store_def alloc_def Let_def prod.case
    unfolding h0_def [symmetric] gather prod.case sorted_def [symmetric]
    by (rule refl)
  with assms(2) have res: "res = length (heap st)"
    and st': "st' = st\<lparr>heap := h1[length (heap st) := ArrayCell sorted]\<rparr>" by auto
  have len0: "length h0 = length (heap st) + 1" by (simp add: h0_def)
  have len1: "length h1 = length (heap st) + 1 + length new" by (simp add: h1_def len0)
  have el: "length h0 \<le> a \<and> a < length h1" if "a \<in> set elems" for a
    using that by (simp add: elems_def h1_def)
  have rd: "heap st' ! a = h1 ! a" if "a \<in> set elems" for a
    using el [OF that] by (simp add: st' len0)
  have "map (\<lambda>a. heap st' ! a) sorted = map (\<lambda>a. h1 ! a) sorted"
    by (intro map_cong) (simp_all add: sorted_def rd)
  also have "\<dots> = sort_key cell_distance (map (\<lambda>a. h1 ! a) elems)"
    unfolding sorted_def distance_at_def by (rule map_sort_key)
  also have "map (\<lambda>a. h1 ! a) elems = new"
    unfolding h1_def elems_def by (rule read_fresh)
  also have "sort_key cell_distance new = map ObjectNear (getObjectsNear w x y radius)"
    unfolding new_def getObjectsNear_def
    using map_sort_key [of ObjectNear cell_distance "objects_in_range w x y radius"]
    by (simp add: cell_distance_def)
  finally have vals: "map (\<lambda>a. heap st' ! a) sorted = map ObjectNear (getObjectsNear w x y radius)" .
  have "untouched st st'"
    by (simp add: untouched_def st' h1_def h0_def nth_append)
  moreover have "fresh_result st st' res (map ObjectNear (getObjectsNear w x y radius))"
    unfolding fresh_result_def
  proof (intro conjI exI [of _ sorted])
    show "length (heap st) \<le> res" by (simp add: res)
    show "res < length (heap st')" by (simp add: res st' len1)
    show "heap st' ! res = ArrayCell sorted" by (simp add: res st' len1)
    show "\<forall>a \<in> set sorted. length (heap st) \<le> a \<and> a < length (heap st')"
    proof
      fix a assume "a \<in> set sorted"
      then have "a \<in> set elems" by (simp add: sorted_def)
      from el [OF this] show "length (heap st) \<le> a \<and> a < length (heap st')"
        by (simp add: st' len0)
    qed
    show "map (\<lambda>a. heap st' ! a) sorted = map ObjectNear (getObjectsNear w x y radius)"
      by (rule vals)
  qed
  ultimately show ?thesis by simp
qed

lemma represents_after:
  assumes "represents st w" and "untouched st st'"
  shows "represents st' w \<and> (\<forall>a c. length (heap st) \<le> a \<longrightarrow> represents (st'\<lparr>heap := (heap st')[a := c]\<rparr>) w)"
  using represents_extend [OF assms] represents_extend [OF assms(1) untouched_update [OF assms(2)]]
  by blast

lemma getObjectsNear_from_cache:
  "set (map wobject.truncate (getObjectsNear w x y r)) \<subseteq> set (all_objects w)"
proof -
  have "wobject.truncate e \<in> set (all_objects w)" if "e \<in> set (objects_in_range w x y r)" for e
  proof -
    from that obtain key where "e \<in> set (chunk_near w x y r key)"
      by (auto simp: objects_in_range_def chunk_near_def)
    then obtain c ob where c: "map_of (chunks w) key = Some c" and ob: "ob \<in> set (objects c)"
      and e: "e = near_object ob (hypot (obj_x ob - x) (obj_y ob - y))"
      by (cases "map_of (chunks w) key") (auto simp: chunk_near_def)
    from c have "(key, c) \<in> set (chunks w)" by (rule map_of_SomeD)
    then have "set (objects c) \<subseteq> set (all_objects w)"
      unfolding all_objects_def by (rule set_objects_subset)
    moreover have "wobject.truncate e = ob"
      unfolding e by (cases ob) (simp add: near_object_def wobject.defs)
    ultimately show ?thesis using ob by auto
  qed
  then show ?thesis by (auto simp: getObjectsNear_def)
qed

text \<open>
  C10. On a store that represents a world \<open>w\<close>, each of the three queries leaves the
  seed, the chunk cache (no key is added: nothing is generated), the NPC and building
  arrays and every cell of the store as they were; the store after the call still
  represents \<open>w\<close>. The result is a newly allocated array of newly allocated records:
  the records of the query on \<open>w\<close>, each an entity's fields with a \<open>distance\<close>.
  Writing any cell to any address allocated by the call (a returned record, the
  returned array) leaves a store that still represents \<open>w\<close>. The records returned by
  \<open>getObjectsNear\<close> are copies of objects of cached chunks only, so with an empty
  cache the result is empty.
\<close>

theorem spatial_queries_read_only:
  assumes "represents st w"
  shows "(case getObjectsNear_store st x y r of (res, st') \<Rightarrow>
            untouched st st' \<and> represents st' w \<and>
            fresh_result st st' res (map ObjectNear (getObjectsNear w x y r)) \<and>
            (\<forall>a c. length (heap st) \<le> a \<longrightarrow> represents (st'\<lparr>heap := (heap st')[a := c]\<rparr>) w)) \<and>
         (case getNPCsNear_store st x y r of (res, st') \<Rightarrow>
            untouched st st' \<and> represents st' w \<and>
            fresh_result st st' res (map NpcNear (getNPCsNear w x y r)) \<and>
            (\<forall>a c. length (heap st) \<le> a \<longrightarrow> represents (st'\<lparr>heap := (heap st')[a := c]\<rparr>) w)) \<and>
         (case getBuildingsNear_store st x y r of (res, st') \<Rightarrow>
            untouched st st' \<and> represents st' w \<and>
            fresh_result st st' res (map BuildingNear (getBuildingsNear w x y r)) \<and>
            (\<forall>a c. length (heap st) \<le> a \<longrightarrow> represents (st'\<lparr>heap := (heap st')[a := c]\<rparr>) w)) \<and>
         set (map wobject.truncate (getObjectsNear w x y r)) \<subseteq> set (all_objects w) \<and>
         (chunks w = [] \<longrightarrow> getObjectsNear w x y r = [])"
proof (intro conjI)
  obtain res st' where q: "getObjectsNear_store st x y r = (res, st')"
    by (cases "getObjectsNear_store st x y r")
  from getObjectsNear_store_spec [OF assms q] represents_after [OF assms]
  show "case getObjectsNear_store st x y r of (res, st') \<Rightarrow>
            untouched st st' \<and> represents st' w \<and>
            fresh_result st st' res (map ObjectNear (getObjectsNear w x y r)) \<and>
            (\<forall>a c. length (heap st) \<le> a \<longrightarrow> represents (st'\<lparr>heap := (heap st')[a := c]\<rparr>) w)"
    unfolding q by simp
next
  obtain res st' where q: "getNPCsNear_store st x y r = (res, st')"
    by (cases "getNPCsNear_store st x y r")
  from getNPCsNear_store_spec [OF assms q] represents_after [OF assms]
  show "case getNPCsNear_store st x y r of (res, st') \<Rightarrow>
            untouched st st' \<and> represents st' w \<and>
            fresh_result st st' res (map NpcNear (getNPCsNear w x y r)) \<and>
            (\<forall>a c. length (heap st) \<le> a \<longrightarrow> represents (st'\<lparr>heap := (heap st')[a := c]\<rparr>) w)"
    unfolding q by simp
next
  obtain res st' where q: "getBuildingsNear_store st x y r = (res, st')"
    by (cases "getBuildingsNear_store st x y r")
  from getBuildingsNear_store_spec [OF assms q] represents_after [OF assms]
  show "case getBuildingsNear_store st x y r of (res, st') \<Rightarrow>
            untouched st st' \<and> represents st' w \<and>
            fresh_result st st' res (map BuildingNear (getBuildingsNear w x y r)) \<and>
            (\<forall>a c. length (heap st) \<le> a \<longrightarrow> represents (st'\<lparr>heap := (heap st')[a := c]\<rparr>) w)"
    unfolding q by simp
next
  show "set (map wobject.truncate (getObjectsNear w x y r)) \<subseteq> set (all_objects w)"
    by (rule getObjectsNear_from_cache)
  show "chunks w = [] \<longrightarrow> getObjectsNear w x y r = []"
    by (simp add: getObjectsNear_def objects_in_range_def near_chunks_def Let_def)
qed

lemma demo_store_represents: "represents demo_store demo_world"
  by (auto simp: represents_def demo_store_def demo_world_def demo_chunk_def World_new_def
      holds_array_def array_at_def)

theorem spatial_queries_read_only_witness:
  "represents demo_store demo_world \<and>
   untouched demo_store (snd (getObjectsNear_store demo_store 0 0 100)) \<and>
   represents (snd (getObjectsNear_store demo_store 0 0 100)) demo_world \<and>
   fresh_result demo_store (snd (getNPCsNear_store demo_store 0 0 100))
     (fst (getNPCsNear_store demo_store 0 0 100)) [NpcNear (near_npc demo_npc 5)] \<and>
   represents ((snd (getBuildingsNear_store demo_store 0 0 100))
     \<lparr>heap := (heap (snd (getBuildingsNear_store demo_store 0 0 100)))[7 := ArrayCell []]\<rparr>) demo_world"
proof -
  note t = spatial_queries_read_only [OF demo_store_represents, of 0 0 100, unfolded split_beta]
  from t have a: "untouched demo_store (snd (getObjectsNear_store demo_store 0 0 100))"
    and b: "represents (snd (getObjectsNear_store demo_store 0 0 100)) demo_world"
    and c: "fresh_result demo_store (snd (getNPCsNear_store demo_store 0 0 100))
      (fst (getNPCsNear_store demo_store 0 0 100)) (map NpcNear (getNPCsNear demo_world 0 0 100))"
    and d: "\<forall>a c. length (heap demo_store) \<le> a \<longrightarrow>
      represents ((snd (getBuildingsNear_store demo_store 0 0 100))
        \<lparr>heap := (heap (snd (getBuildingsNear_store demo_store 0 0 100)))[a := c]\<rparr>) demo_world"
    by blast+
  have "length (heap demo_store) \<le> 7" by (simp add: demo_store_def)
  with d have e: "represents ((snd (getBuildingsNear_store demo_store 0 0 100))
     \<lparr>heap := (heap (snd (getBuildingsNear_store demo_store 0 0 100)))[7 := ArrayCell []]\<rparr>) demo_world"
    by blast
  from c have c': "fresh_result demo_store (snd (getNPCsNear_store demo_store 0 0 100))
      (fst (getNPCsNear_store demo_store 0 0 100)) [NpcNear (near_npc demo_npc 5)]"
    by (simp add: demo_getNPCsNear)
  from demo_store_represents a b c' e show ?thesis by blast
qed

section \<open>Ids are never reused\<close>

text \<open>
  The hypothesis of the harvest theorem holds in every world the program reaches: a new
  world has it, and \<open>getChunk\<close>, \<open>harvestObject\<close> and the respawn callback keep it.
  The last two also keep the keys of the chunk cache.
\<close>

lemma ids_fresh_push:
  assumes "ids_fresh rt (old @ obs)" and "obj_id ob = fst (generateId rt)"
  shows "ids_fresh (snd (generateId rt)) (old @ obs @ [ob])"
proof -
  have c: "id_counter (obj_id ob) = idCounter rt + 1"
    and rt': "idCounter (snd (generateId rt)) = idCounter rt + 1"
    by (simp_all add: assms(2) generateId_def Let_def id_counter_def)
  from assms(1) have le: "\<forall>o' \<in> set (old @ obs). id_counter (obj_id o') \<le> idCounter rt"
    and d: "distinct (map obj_id (old @ obs))"
    by (simp_all add: ids_fresh_def)
  have "obj_id ob \<notin> obj_id ` set (old @ obs)"
  proof
    assume "obj_id ob \<in> obj_id ` set (old @ obs)"
    then obtain o' where "o' \<in> set (old @ obs)" "obj_id ob = obj_id o'" by auto
    with le c show False by force
  qed
  with d have "distinct (map obj_id (old @ obs @ [ob]))" by auto
  moreover have "\<forall>o' \<in> set (old @ obs @ [ob]). id_counter (obj_id o') \<le> idCounter rt + 1"
    using le c by force
  ultimately show ?thesis by (simp add: ids_fresh_def rt')
qed

lemma ids_fresh_tick: "ids_fresh rt obs \<Longrightarrow> ids_fresh (snd (generateId rt)) obs"
  by (force simp: ids_fresh_def generateId_def Let_def)

lemma ids_fresh_place_tree:
  "ids_fresh (gs_rt s) (old @ gs_objects s) \<Longrightarrow>
    ids_fresh (gs_rt (place_tree b roll wx wy s)) (old @ gs_objects (place_tree b roll wx wy s))"
  by (auto simp: place_tree_def Let_def split_beta intro!: ids_fresh_push)

lemma ids_fresh_place_rock:
  "ids_fresh (gs_rt s) (old @ gs_objects s) \<Longrightarrow>
    ids_fresh (gs_rt (place_rock b roll wx wy s)) (old @ gs_objects (place_rock b roll wx wy s))"
  by (auto simp: place_rock_def Let_def split_beta intro!: ids_fresh_push)

lemma ids_fresh_place_flower:
  "ids_fresh (gs_rt s) (old @ gs_objects s) \<Longrightarrow>
    ids_fresh (gs_rt (place_flower b roll wx wy s)) (old @ gs_objects (place_flower b roll wx wy s))"
  by (auto simp: place_flower_def Let_def split_beta intro!: ids_fresh_push)

lemma ids_fresh_place_mushroom:
  "ids_fresh (gs_rt s) (old @ gs_objects s) \<Longrightarrow>
    ids_fresh (gs_rt (place_mushroom b wx wy s)) (old @ gs_objects (place_mushroom b wx wy s))"
  by (auto simp: place_mushroom_def Let_def split_beta intro!: ids_fresh_push)

lemma ids_fresh_place_bush:
  "ids_fresh (gs_rt s) (old @ gs_objects s) \<Longrightarrow>
    ids_fresh (gs_rt (place_bush b wx wy s)) (old @ gs_objects (place_bush b wx wy s))"
  by (auto simp: place_bush_def Let_def split_beta intro!: ids_fresh_push)

lemma ids_fresh_place_cactus:
  "ids_fresh (gs_rt s) (old @ gs_objects s) \<Longrightarrow>
    ids_fresh (gs_rt (place_cactus b wx wy s)) (old @ gs_objects (place_cactus b wx wy s))"
  by (auto simp: place_cactus_def Let_def split_beta intro!: ids_fresh_push)

lemma ids_fresh_place_building:
  "ids_fresh (gs_rt s) (old @ gs_objects s) \<Longrightarrow>
    ids_fresh (gs_rt (place_building b wx wy s)) (old @ gs_objects (place_building b wx wy s))"
  by (auto simp: place_building_def generateBuilding_def Let_def split_beta
      intro: ids_fresh_tick)

lemma ids_fresh_tile_step:
  assumes "ids_fresh (gs_rt s) (old @ gs_objects s)"
  shows "ids_fresh (gs_rt (tile_step b wx wy s)) (old @ gs_objects (tile_step b wx wy s))"
proof (cases "b = Water \<or> b = Beach")
  case True
  with assms show ?thesis by (simp add: tile_step_def)
next
  case False
  obtain roll g where n: "rng_next (gs_rng s) = (roll, g)" by (cases "rng_next (gs_rng s)")
  have e: "tile_step b wx wy s =
      place_building b wx wy (place_cactus b wx wy (place_bush b wx wy (place_mushroom b wx wy
        (place_flower b roll wx wy (place_rock b roll wx wy (place_tree b roll wx wy (s\<lparr>gs_rng := g\<rparr>)))))))"
    using False by (simp add: tile_step_def n Let_def)
  have "ids_fresh (gs_rt (s\<lparr>gs_rng := g\<rparr>)) (old @ gs_objects (s\<lparr>gs_rng := g\<rparr>))"
    using assms by simp
  then show ?thesis
    unfolding e
    by (intro ids_fresh_place_building ids_fresh_place_cactus ids_fresh_place_bush
        ids_fresh_place_mushroom ids_fresh_place_flower ids_fresh_place_rock ids_fresh_place_tree)
qed

lemma ids_fresh_foldl:
  assumes "\<And>x s. ids_fresh (gs_rt s) (old @ gs_objects s) \<Longrightarrow>
      ids_fresh (gs_rt (f s x)) (old @ gs_objects (f s x))"
  shows "ids_fresh (gs_rt s) (old @ gs_objects s) \<Longrightarrow>
      ids_fresh (gs_rt (foldl f s xs)) (old @ gs_objects (foldl f s xs))"
proof (induction xs arbitrary: s)
  case Nil
  then show ?case by simp
next
  case (Cons x xs)
  from Cons.prems have "ids_fresh (gs_rt (f s x)) (old @ gs_objects (f s x))" by (rule assms)
  then have "ids_fresh (gs_rt (foldl f (f s x) xs)) (old @ gs_objects (foldl f (f s x) xs))"
    by (rule Cons.IH)
  then show ?case by simp
qed

lemma ids_fresh_generate_objects:
  "ids_fresh (gs_rt s) (old @ gs_objects s) \<Longrightarrow>
    ids_fresh (gs_rt (generate_objects ts cx cy s)) (old @ gs_objects (generate_objects ts cx cy s))"
  unfolding generate_objects_def Let_def
proof (rule ids_fresh_foldl)
  fix x :: "nat \<times> nat" and t :: gen_state
  assume "ids_fresh (gs_rt t) (old @ gs_objects t)"
  then show "ids_fresh
      (gs_rt (case x of (ty, tx) \<Rightarrow>
        tile_step (tile_biome (ts ! ty ! tx))
          (real_of_int (cx * CHUNK_SIZE * TILE_SIZE + int tx * TILE_SIZE) + real_of_int TILE_SIZE / 2)
          (real_of_int (cy * CHUNK_SIZE * TILE_SIZE + int ty * TILE_SIZE) + real_of_int TILE_SIZE / 2) t))
      (old @ gs_objects (case x of (ty, tx) \<Rightarrow>
        tile_step (tile_biome (ts ! ty ! tx))
          (real_of_int (cx * CHUNK_SIZE * TILE_SIZE + int tx * TILE_SIZE) + real_of_int TILE_SIZE / 2)
          (real_of_int (cy * CHUNK_SIZE * TILE_SIZE + int ty * TILE_SIZE) + real_of_int TILE_SIZE / 2) t))"
    unfolding split_beta by (rule ids_fresh_tile_step)
qed

lemma update_absent: "map_of al k = None \<Longrightarrow> AList.update k v al = al @ [(k, v)]"
  by (induction al) (auto split: if_splits)

lemma ids_fresh_new: "ids_fresh rt (all_objects (World_new s))"
  by (simp add: ids_fresh_def all_objects_def chunk_objects_def World_new_def)

lemma ids_fresh_getChunk:
  assumes "ids_fresh rt (all_objects w)" and "getChunk w rt cx cy = (c, w', rt')"
  shows "ids_fresh rt' (all_objects w')"
proof (cases "map_of (chunks w) (cx, cy)")
  case (Some ch)
  with assms show ?thesis by (simp add: getChunk_cached)
next
  case None
  define s where "s = generate_objects (generate_tiles w cx cy) cx cy
      \<lparr>gs_rng = SeededRandom_new (chunkSeed (w_seed w) cx cy), gs_objects = [],
       gs_buildings = buildings w, gs_rt = rt\<rparr>"
  have "ids_fresh (gs_rt s) (all_objects w @ gs_objects s)"
    unfolding s_def by (rule ids_fresh_generate_objects) (simp add: assms(1))
  moreover have "getChunk w rt cx cy =
      (Some \<lparr>chunk_x = cx, chunk_y = cy, tiles = generate_tiles w cx cy, objects = gs_objects s,
             generated = True\<rparr>,
       w\<lparr>chunks := chunks w @ [((cx, cy), \<lparr>chunk_x = cx, chunk_y = cy,
             tiles = generate_tiles w cx cy, objects = gs_objects s, generated = True\<rparr>)],
          buildings := gs_buildings s\<rparr>, gs_rt s)"
    by (simp add: getChunk_uncached [OF None] generateChunk_def getChunkKey_def Let_def
        update_absent [OF None] s_def)
  with assms(2) have "rt' = gs_rt s" and "all_objects w' = all_objects w @ gs_objects s"
    by (auto simp: all_objects_def chunk_objects_def)
  ultimately show ?thesis by simp
qed

lemma ids_fresh_filter:
  assumes "ids_fresh rt xs" and "map obj_id ys = filter P (map obj_id xs)"
    and "idCounter rt' = idCounter rt"
  shows "ids_fresh rt' ys"
proof -
  from assms(1) have d: "distinct (map obj_id xs)"
    and le: "\<forall>ob \<in> set xs. id_counter (obj_id ob) \<le> idCounter rt"
    by (simp_all add: ids_fresh_def)
  have "distinct (map obj_id ys)" unfolding assms(2) using d by simp
  moreover have "id_counter (obj_id ob) \<le> idCounter rt'" if "ob \<in> set ys" for ob
  proof -
    from that have "obj_id ob \<in> set (map obj_id ys)" by simp
    then have "obj_id ob \<in> set (map obj_id xs)" unfolding assms(2) by simp
    then obtain ob' where "ob' \<in> set xs" "obj_id ob = obj_id ob'" by auto
    with le assms(3) show ?thesis by simp
  qed
  ultimately show ?thesis by (simp add: ids_fresh_def)
qed

lemma on_objects_ids:
  assumes "\<And>xs. map obj_id (f xs) = filter P (map obj_id xs)"
  shows "map obj_id (chunk_objects (on_objects f cs)) = filter P (map obj_id (chunk_objects cs))"
  by (induction cs) (auto simp: chunk_objects_def on_objects_def assms)

lemma ids_fresh_harvestObject:
  assumes "ids_fresh rt (all_objects w)" and "harvestObject w rt i = (r, w', rt')"
  shows "ids_fresh rt' (all_objects w')"
proof (cases "\<exists>ob \<in> set (all_objects w). obj_id ob = i \<and> obj_harvestable ob")
  case False
  then have "harvest_loop (chunks w) i = None"
    unfolding all_objects_def by (intro harvest_loop_miss) auto
  with assms show ?thesis by (simp add: harvestObject_def)
next
  case True
  then obtain ob where ob: "ob \<in> set (all_objects w)" "obj_id ob = i" "obj_harvestable ob" by blast
  from assms(1) have d: "distinct (map obj_id (chunk_objects (chunks w)))"
    by (simp add: ids_fresh_def all_objects_def)
  have rm: "map obj_id (filter (\<lambda>ob. obj_id ob \<noteq> i) xs) = filter (\<lambda>j. j \<noteq> i) (map obj_id xs)"
    for xs :: "wobject list"
    by (simp add: filter_map comp_def)
  have dp: "map obj_id (map (\<lambda>ob. if obj_id ob = i then ob\<lparr>obj_harvestable := False\<rparr> else ob) xs) =
      filter (\<lambda>j. True) (map obj_id xs)" for xs :: "wobject list"
    by (induction xs) simp_all
  from harvest_loop_hit [OF d ob(1) [unfolded all_objects_def] ob(2,3)] assms(2)
  have w': "chunks w' = on_objects (filter (\<lambda>ob. obj_id ob \<noteq> i)) (chunks w) \<or>
      chunks w' = on_objects (map (\<lambda>ob. if obj_id ob = i then ob\<lparr>obj_harvestable := False\<rparr> else ob)) (chunks w)"
    and rt': "idCounter rt' = idCounter rt"
    by (auto simp: harvestObject_def split: if_splits)
  from w' show ?thesis
  proof
    assume "chunks w' = on_objects (filter (\<lambda>ob. obj_id ob \<noteq> i)) (chunks w)"
    then have "map obj_id (all_objects w') = filter (\<lambda>j. j \<noteq> i) (map obj_id (all_objects w))"
      by (simp add: all_objects_def on_objects_ids [OF rm])
    with assms(1) show ?thesis using rt' by (rule ids_fresh_filter)
  next
    assume "chunks w' = on_objects (map (\<lambda>ob. if obj_id ob = i then ob\<lparr>obj_harvestable := False\<rparr> else ob)) (chunks w)"
    then have "map obj_id (all_objects w') = filter (\<lambda>j. True) (map obj_id (all_objects w))"
      by (simp only: all_objects_def on_objects_ids [OF dp])
    with assms(1) show ?thesis using rt' by (rule ids_fresh_filter)
  qed
qed

lemma ids_fresh_respawn: "ids_fresh rt (all_objects w) \<Longrightarrow> ids_fresh rt (all_objects (respawn w i))"
proof -
  assume a: "ids_fresh rt (all_objects w)"
  have up: "map obj_id (map (\<lambda>ob. if obj_id ob = i then ob\<lparr>obj_harvestable := True\<rparr> else ob) xs) =
      filter (\<lambda>j. True) (map obj_id xs)" for xs :: "wobject list"
    by (induction xs) simp_all
  have "chunks (respawn w i) =
      on_objects (map (\<lambda>ob. if obj_id ob = i then ob\<lparr>obj_harvestable := True\<rparr> else ob)) (chunks w)"
    by (simp add: respawn_def on_objects_def)
  then have "map obj_id (all_objects (respawn w i)) = filter (\<lambda>j. True) (map obj_id (all_objects w))"
    by (simp only: all_objects_def on_objects_ids [OF up])
  with a show ?thesis by (rule ids_fresh_filter) simp
qed

lemma harvest_keeps_keys:
  "map fst (chunks (fst (snd (harvestObject w rt i)))) = map fst (chunks w)"
  "map fst (chunks (respawn w i)) = map fst (chunks w)"
proof -
  have k: "map fst (on_objects f cs) = map fst cs" for f and cs :: "((int \<times> int) \<times> chunk) list"
    by (induction cs) (auto simp: on_objects_def)
  show "map fst (chunks (respawn w i)) = map fst (chunks w)"
    by (simp add: respawn_def split_beta comp_def)
  show "map fst (chunks (fst (snd (harvestObject w rt i)))) = map fst (chunks w)"
  proof (cases "\<exists>ob \<in> set (all_objects w). obj_id ob = i \<and> obj_harvestable ob")
    case False
    then have "harvest_loop (chunks w) i = None"
      unfolding all_objects_def by (intro harvest_loop_miss) auto
    then show ?thesis by (simp add: harvestObject_def)
  next
    case True
    have "map fst cs' = map fst cs" if "harvest_loop cs i = Some (res, cs', t)" for cs cs' res t
      using that
    proof (induction cs arbitrary: cs')
      case Nil
      then show ?case by simp
    next
      case (Cons p cs)
      obtain key c where p: "p = (key, c)" by (cases p)
      from Cons.prems Cons.IH show ?case
        by (auto simp: p Let_def split: option.splits if_splits)
    qed
    then show ?thesis
      by (cases "harvest_loop (chunks w) i") (auto simp: harvestObject_def)
  qed
qed

end
